theory Spec2Isabelle
  imports Main "HOL-Library.Word"
begin

section \<open>Data model\<close>

text \<open>
  The repository is one header, \<^verbatim>\<open>advanced-vector/vector.h\<close>, with two class templates:
  \<^verbatim>\<open>RawMemory<T>\<close> (an owned block of raw memory for a number of elements) and
  \<^verbatim>\<open>Vector<T>\<close> (the block plus the number of elements alive in it).

  \<^item> \<^verbatim>\<open>size_t\<close> is a 64-bit word: \<^verbatim>\<open>size_ * 2\<close>, \<^verbatim>\<open>Capacity() * 2\<close> and
    \<^verbatim>\<open>++size_\<close> wrap around as they do in the source.
  \<^item> A block of raw memory is a list of slots, one per element the block was allocated for.
    A slot holds \<open>None\<close> (raw memory, no object) or \<open>Some x\<close> (an object of value \<open>x\<close>).
  \<^item> A pointer into a block (\<^verbatim>\<open>T*\<close>, \<^verbatim>\<open>iterator\<close>) is the position it points to, counted
    in elements from the start of the block; \<^verbatim>\<open>GetAddress()\<close> is position 0.
  \<^item> A failed \<^verbatim>\<open>assert\<close> and every access the language leaves undefined (outside the
    block, or to a slot that holds no object) is an error value.
  \<^item> \<^verbatim>\<open>operator new\<close> is taken to return the block asked for: a block for \<open>n\<close>
    elements has \<open>n\<close> slots. Running out of memory (\<^verbatim>\<open>std::bad_alloc\<close>) is outside the
    model, and so is the size of an element in bytes.
  \<^item> An argument passed by reference (\<^verbatim>\<open>const T& value\<close>, \<^verbatim>\<open>T&& value\<close>,
    \<^verbatim>\<open>Args&&... args\<close>) is an object outside the vector, given by its value.
\<close>

type_synonym size_t = "64 word"

type_synonym 'a block = "'a option list"

datatype error =
    AssertionFailed   \<comment> \<open>an \<^verbatim>\<open>assert\<close> of the source does not hold\<close>
  | OutOfBlock        \<comment> \<open>access to a position outside the allocated block\<close>
  | NoObject          \<comment> \<open>use or destruction of a slot that holds no object\<close>
  | BadRange          \<comment> \<open>an iterator range whose end lies before its start\<close>

definition bind_err :: "error + 'a \<Rightarrow> ('a \<Rightarrow> error + 'b) \<Rightarrow> error + 'b" where
  "bind_err m f = (case m of Inl e \<Rightarrow> Inl e | Inr x \<Rightarrow> f x)"

text \<open>
  The element type \<^verbatim>\<open>T\<close> is a template parameter. What the container uses of it is taken
  as a parameter of the model: the value of a value-initialised object \<^verbatim>\<open>T()\<close>, the state
  a move leaves its source in (for \<^verbatim>\<open>int\<close> the value itself, for \<^verbatim>\<open>std::string\<close> the
  empty string, for \<^verbatim>\<open>std::unique_ptr\<close> the null pointer), and the two type traits the
  source asks for in \<^verbatim>\<open>if constexpr\<close>. Copying yields an equal value and leaves the
  source as it is. Constructors and assignments of \<^verbatim>\<open>T\<close> are taken not to throw, so
  the \<^verbatim>\<open>catch\<close> blocks of the source are never entered.
\<close>

record 'a element_type =
  value_init :: 'a
  moved_from :: "'a \<Rightarrow> 'a"
  is_nothrow_move_constructible :: bool
  is_copy_constructible :: bool

text \<open>The data members \<^verbatim>\<open>buffer_\<close>, \<^verbatim>\<open>capacity_\<close>, \<^verbatim>\<open>data_\<close> and \<^verbatim>\<open>size_\<close>
  are the fields \<open>buffer_m\<close>, \<open>capacity_m\<close>, \<open>data_m\<close> and \<open>size_m\<close>.\<close>

record 'a RawMemory =
  buffer_m :: "'a block"
  capacity_m :: size_t

record 'a Vector =
  data_m :: "'a RawMemory"
  size_m :: size_t

section \<open>Objects in raw memory\<close>

text \<open>Placement \<^verbatim>\<open>new (p) T(x)\<close>: an object of value \<open>x\<close> comes to life in slot \<open>p\<close>.\<close>

definition construct_at :: "'a block \<Rightarrow> nat \<Rightarrow> 'a \<Rightarrow> error + 'a block" where
  "construct_at b p x = (if p < length b then Inr (b[p := Some x]) else Inl OutOfBlock)"

text \<open>Reading \<^verbatim>\<open>*p\<close>.\<close>

definition load :: "'a block \<Rightarrow> nat \<Rightarrow> error + 'a" where
  "load b p =
     (if p < length b then (case b ! p of None \<Rightarrow> Inl NoObject | Some x \<Rightarrow> Inr x)
      else Inl OutOfBlock)"

text \<open>\<^verbatim>\<open>std::destroy_at(p)\<close>: the object in slot \<open>p\<close> ends, the slot is raw memory again.\<close>

definition destroy_at :: "'a block \<Rightarrow> nat \<Rightarrow> error + 'a block" where
  "destroy_at b p = bind_err (load b p) (\<lambda>_. Inr (b[p := None]))"

text \<open>Assignment \<^verbatim>\<open>*p = x\<close> to an object that is alive.\<close>

definition assign_at :: "'a block \<Rightarrow> nat \<Rightarrow> 'a \<Rightarrow> error + 'a block" where
  "assign_at b p x = bind_err (load b p) (\<lambda>_. Inr (b[p := Some x]))"

text \<open>\<^verbatim>\<open>std::move(*p)\<close> consumed by a move constructor or a move assignment: the value
  is handed over and the source object stays alive in its moved-from state.\<close>

definition move_out :: "'a element_type \<Rightarrow> 'a block \<Rightarrow> nat \<Rightarrow> error + ('a \<times> 'a block)" where
  "move_out T b p = bind_err (load b p) (\<lambda>x. Inr (x, b[p := Some (moved_from T x)]))"

subsection \<open>The algorithms of the standard library the source calls\<close>

text \<open>\<^verbatim>\<open>std::uninitialized_copy_n(first, n, d_first)\<close> from one block into another.\<close>

fun uninitialized_copy_n ::
  "'a block \<Rightarrow> nat \<Rightarrow> nat \<Rightarrow> 'a block \<Rightarrow> nat \<Rightarrow> error + 'a block" where
  "uninitialized_copy_n src first 0 dst d_first = Inr dst"
| "uninitialized_copy_n src first (Suc n) dst d_first =
     (case load src first of Inl e \<Rightarrow> Inl e
      | Inr x \<Rightarrow>
        (case construct_at dst d_first x of Inl e \<Rightarrow> Inl e
         | Inr dst' \<Rightarrow> uninitialized_copy_n src (Suc first) n dst' (Suc d_first)))"

text \<open>\<^verbatim>\<open>std::uninitialized_move_n(first, n, d_first)\<close> from one block into another;
  the source block is returned too, its objects moved-from.\<close>

fun uninitialized_move_n ::
  "'a element_type \<Rightarrow> 'a block \<Rightarrow> nat \<Rightarrow> nat \<Rightarrow> 'a block \<Rightarrow> nat \<Rightarrow> error + ('a block \<times> 'a block)" where
  "uninitialized_move_n T src first 0 dst d_first = Inr (src, dst)"
| "uninitialized_move_n T src first (Suc n) dst d_first =
     (case move_out T src first of Inl e \<Rightarrow> Inl e
      | Inr (x, src') \<Rightarrow>
        (case construct_at dst d_first x of Inl e \<Rightarrow> Inl e
         | Inr dst' \<Rightarrow> uninitialized_move_n T src' (Suc first) n dst' (Suc d_first)))"

text \<open>\<^verbatim>\<open>std::uninitialized_value_construct_n(first, n)\<close>.\<close>

fun uninitialized_value_construct_n ::
  "'a element_type \<Rightarrow> 'a block \<Rightarrow> nat \<Rightarrow> nat \<Rightarrow> error + 'a block" where
  "uninitialized_value_construct_n T b first 0 = Inr b"
| "uninitialized_value_construct_n T b first (Suc n) =
     (case construct_at b first (value_init T) of Inl e \<Rightarrow> Inl e
      | Inr b' \<Rightarrow> uninitialized_value_construct_n T b' (Suc first) n)"

text \<open>\<^verbatim>\<open>std::destroy_n(first, n)\<close>.\<close>

fun destroy_n :: "'a block \<Rightarrow> nat \<Rightarrow> nat \<Rightarrow> error + 'a block" where
  "destroy_n b first 0 = Inr b"
| "destroy_n b first (Suc n) =
     (case destroy_at b first of Inl e \<Rightarrow> Inl e
      | Inr b' \<Rightarrow> destroy_n b' (Suc first) n)"

text \<open>\<^verbatim>\<open>std::copy(first, last, d_first)\<close> from one block to objects alive in another:
  \<^verbatim>\<open>while (first != last) *d_first++ = *first++;\<close>. The loop is run \<open>last - first\<close>
  times; a range with \<open>last\<close> before \<open>first\<close> is an error.\<close>

fun copy_n_assign :: "'a block \<Rightarrow> nat \<Rightarrow> nat \<Rightarrow> 'a block \<Rightarrow> nat \<Rightarrow> error + 'a block" where
  "copy_n_assign src first 0 dst d_first = Inr dst"
| "copy_n_assign src first (Suc n) dst d_first =
     (case load src first of Inl e \<Rightarrow> Inl e
      | Inr x \<Rightarrow>
        (case assign_at dst d_first x of Inl e \<Rightarrow> Inl e
         | Inr dst' \<Rightarrow> copy_n_assign src (Suc first) n dst' (Suc d_first)))"

definition std_copy :: "'a block \<Rightarrow> nat \<Rightarrow> nat \<Rightarrow> 'a block \<Rightarrow> nat \<Rightarrow> error + 'a block" where
  "std_copy src first end_it dst d_first =
     (if first \<le> end_it then copy_n_assign src first (end_it - first) dst d_first
      else Inl BadRange)"

text \<open>\<^verbatim>\<open>std::move(first, last, d_first)\<close> inside one block:
  \<^verbatim>\<open>while (first != last) *d_first++ = std::move(*first++);\<close>.\<close>

fun move_n_assign :: "'a element_type \<Rightarrow> 'a block \<Rightarrow> nat \<Rightarrow> nat \<Rightarrow> nat \<Rightarrow> error + 'a block" where
  "move_n_assign T b first 0 d_first = Inr b"
| "move_n_assign T b first (Suc n) d_first =
     (case move_out T b first of Inl e \<Rightarrow> Inl e
      | Inr (x, b') \<Rightarrow>
        (case assign_at b' d_first x of Inl e \<Rightarrow> Inl e
         | Inr b'' \<Rightarrow> move_n_assign T b'' (Suc first) n (Suc d_first)))"

definition std_move :: "'a element_type \<Rightarrow> 'a block \<Rightarrow> nat \<Rightarrow> nat \<Rightarrow> nat \<Rightarrow> error + 'a block" where
  "std_move T b first end_it d_first =
     (if first \<le> end_it then move_n_assign T b first (end_it - first) d_first
      else Inl BadRange)"

text \<open>\<^verbatim>\<open>std::move_backward(first, last, d_last)\<close> inside one block:
  \<^verbatim>\<open>while (first != last) *(--d_last) = std::move(*(--last));\<close>.\<close>

fun move_backward_n :: "'a element_type \<Rightarrow> 'a block \<Rightarrow> nat \<Rightarrow> nat \<Rightarrow> nat \<Rightarrow> error + 'a block" where
  "move_backward_n T b 0 end_it d_end = Inr b"
| "move_backward_n T b (Suc n) end_it d_end =
     (if end_it = 0 \<or> d_end = 0 then Inl OutOfBlock
      else
        (case move_out T b (end_it - 1) of Inl e \<Rightarrow> Inl e
         | Inr (x, b') \<Rightarrow>
           (case assign_at b' (d_end - 1) x of Inl e \<Rightarrow> Inl e
            | Inr b'' \<Rightarrow> move_backward_n T b'' n (end_it - 1) (d_end - 1))))"

definition std_move_backward ::
  "'a element_type \<Rightarrow> 'a block \<Rightarrow> nat \<Rightarrow> nat \<Rightarrow> nat \<Rightarrow> error + 'a block" where
  "std_move_backward T b first end_it d_end =
     (if first \<le> end_it then move_backward_n T b (end_it - first) end_it d_end
      else Inl BadRange)"

section \<open>RawMemory\<close>

text \<open>\<^verbatim>\<open>Allocate(n)\<close>: raw memory for \<open>n\<close> elements, no block at all (\<^verbatim>\<open>nullptr\<close>) for
  \<open>n = 0\<close>.\<close>

definition Allocate :: "size_t \<Rightarrow> 'a block" where
  "Allocate n = (if n \<noteq> 0 then replicate (unat n) None else [])"

text \<open>\<^verbatim>\<open>RawMemory() = default\<close> and \<^verbatim>\<open>explicit RawMemory(size_t capacity)\<close>.\<close>

definition RawMemory_default :: "'a RawMemory" where
  "RawMemory_default = \<lparr>buffer_m = [], capacity_m = 0\<rparr>"

definition RawMemory_sized :: "size_t \<Rightarrow> 'a RawMemory" where
  "RawMemory_sized capacity = \<lparr>buffer_m = Allocate capacity, capacity_m = capacity\<rparr>"

text \<open>\<^verbatim>\<open>RawMemory(RawMemory&& other)\<close>: the new object and what is left of \<open>other\<close>.\<close>

definition RawMemory_move :: "'a RawMemory \<Rightarrow> 'a RawMemory \<times> 'a RawMemory" where
  "RawMemory_move other = (\<lparr>buffer_m = buffer_m other, capacity_m = capacity_m other\<rparr>,
                           \<lparr>buffer_m = [], capacity_m = 0\<rparr>)"

text \<open>\<^verbatim>\<open>T* GetAddress()\<close>: the start of the block, position 0.\<close>

definition GetAddress :: "'a RawMemory \<Rightarrow> nat" where
  "GetAddress m = 0"

text \<open>\<^verbatim>\<open>T* operator+(size_t offset)\<close> with its \<^verbatim>\<open>assert(offset <= capacity_)\<close>.\<close>

definition RawMemory_plus :: "'a RawMemory \<Rightarrow> size_t \<Rightarrow> error + nat" where
  "RawMemory_plus m offset =
     (if offset \<le> capacity_m m then Inr (GetAddress m + unat offset) else Inl AssertionFailed)"

text \<open>\<^verbatim>\<open>T& operator[](size_t index)\<close> with its \<^verbatim>\<open>assert(index < capacity_)\<close>; the
  reference returned is the position of the slot.\<close>

definition RawMemory_index :: "'a RawMemory \<Rightarrow> size_t \<Rightarrow> error + nat" where
  "RawMemory_index m index =
     (if index < capacity_m m then Inr (GetAddress m + unat index) else Inl AssertionFailed)"

definition RawMemory_Swap :: "'a RawMemory \<Rightarrow> 'a RawMemory \<Rightarrow> 'a RawMemory \<times> 'a RawMemory" where
  "RawMemory_Swap m other =
     (\<lparr>buffer_m = buffer_m other, capacity_m = capacity_m other\<rparr>,
      \<lparr>buffer_m = buffer_m m, capacity_m = capacity_m m\<rparr>)"

definition RawMemory_Capacity :: "'a RawMemory \<Rightarrow> size_t" where
  "RawMemory_Capacity m = capacity_m m"

section \<open>Vector\<close>

text \<open>The block of \<open>v\<close> after the objects in it have been worked on.\<close>

definition set_buffer :: "'a Vector \<Rightarrow> 'a block \<Rightarrow> 'a Vector" where
  "set_buffer v b = v\<lparr>data_m := (data_m v)\<lparr>buffer_m := b\<rparr>\<rparr>"

definition Vector_begin :: "'a Vector \<Rightarrow> nat" where
  "Vector_begin v = GetAddress (data_m v)"

definition Vector_end :: "'a Vector \<Rightarrow> nat" where
  "Vector_end v = unat (size_m v) + GetAddress (data_m v)"

text \<open>\<^verbatim>\<open>Vector() = default\<close>.\<close>

definition Vector_default :: "'a Vector" where
  "Vector_default = \<lparr>data_m = RawMemory_default, size_m = 0\<rparr>"

text \<open>\<^verbatim>\<open>explicit Vector(size_t size)\<close>.\<close>

definition Vector_sized :: "'a element_type \<Rightarrow> size_t \<Rightarrow> error + 'a Vector" where
  "Vector_sized T n =
     (let d = RawMemory_sized n in
      bind_err (uninitialized_value_construct_n T (buffer_m d) (GetAddress d) (unat n))
        (\<lambda>b. Inr \<lparr>data_m = d\<lparr>buffer_m := b\<rparr>, size_m = n\<rparr>))"

text \<open>\<^verbatim>\<open>Vector(const Vector& other)\<close>.\<close>

definition Vector_copy :: "'a Vector \<Rightarrow> error + 'a Vector" where
  "Vector_copy other =
     (let d = RawMemory_sized (size_m other) in
      bind_err (uninitialized_copy_n (buffer_m (data_m other)) (GetAddress (data_m other))
                  (unat (size_m other)) (buffer_m d) (GetAddress d))
        (\<lambda>b. Inr \<lparr>data_m = d\<lparr>buffer_m := b\<rparr>, size_m = size_m other\<rparr>))"

text \<open>\<^verbatim>\<open>Vector(Vector&& other)\<close>: the new vector and what is left of \<open>other\<close>.\<close>

definition Vector_move :: "'a Vector \<Rightarrow> 'a Vector \<times> 'a Vector" where
  "Vector_move other =
     (let (d, od) = RawMemory_move (data_m other) in
      (\<lparr>data_m = d, size_m = size_m other\<rparr>, \<lparr>data_m = od, size_m = 0\<rparr>))"

definition Size :: "'a Vector \<Rightarrow> size_t" where
  "Size v = size_m v"

definition Capacity :: "'a Vector \<Rightarrow> size_t" where
  "Capacity v = RawMemory_Capacity (data_m v)"

text \<open>\<^verbatim>\<open>void Swap(Vector& other)\<close> on two objects: this vector and \<open>other\<close> afterwards.\<close>

definition Swap :: "'a Vector \<Rightarrow> 'a Vector \<Rightarrow> 'a Vector \<times> 'a Vector" where
  "Swap v other =
     (let (d, od) = RawMemory_Swap (data_m v) (data_m other) in
      (\<lparr>data_m = d, size_m = size_m other\<rparr>, \<lparr>data_m = od, size_m = size_m v\<rparr>))"

text \<open>\<^verbatim>\<open>void Reserve(size_t new_capacity)\<close>. The old block, swapped into \<^verbatim>\<open>new_data\<close>, is
  released when \<^verbatim>\<open>new_data\<close> goes out of scope.\<close>

definition Reserve :: "'a element_type \<Rightarrow> size_t \<Rightarrow> 'a Vector \<Rightarrow> error + 'a Vector" where
  "Reserve T new_capacity v =
     (if new_capacity \<le> RawMemory_Capacity (data_m v) then Inr v
      else
        let new_data = RawMemory_sized new_capacity in
        bind_err
          (if is_nothrow_move_constructible T \<or> \<not> is_copy_constructible T
           then uninitialized_move_n T (buffer_m (data_m v)) (GetAddress (data_m v))
                  (unat (size_m v)) (buffer_m new_data) (GetAddress new_data)
           else bind_err (uninitialized_copy_n (buffer_m (data_m v)) (GetAddress (data_m v))
                            (unat (size_m v)) (buffer_m new_data) (GetAddress new_data))
                  (\<lambda>nb. Inr (buffer_m (data_m v), nb)))
          (\<lambda>(ob, nb).
             bind_err (destroy_n ob (GetAddress (data_m v)) (unat (size_m v)))
               (\<lambda>ob'. let (d, old) = RawMemory_Swap ((data_m v)\<lparr>buffer_m := ob'\<rparr>)
                                        (new_data\<lparr>buffer_m := nb\<rparr>)
                      in Inr (v\<lparr>data_m := d\<rparr>))))"

text \<open>\<^verbatim>\<open>void Resize(size_t new_size)\<close>.\<close>

definition Resize :: "'a element_type \<Rightarrow> size_t \<Rightarrow> 'a Vector \<Rightarrow> error + 'a Vector" where
  "Resize T new_size v =
     (if new_size < size_m v then
        bind_err (destroy_n (buffer_m (data_m v)) (GetAddress (data_m v) + unat new_size)
                    (unat (size_m v - new_size)))
          (\<lambda>b. Inr ((set_buffer v b)\<lparr>size_m := new_size\<rparr>))
      else
        bind_err
          (if new_size > RawMemory_Capacity (data_m v)
           then let new_capacity = max (RawMemory_Capacity (data_m v) * 2) new_size
                in Reserve T new_capacity v
           else Inr v)
          (\<lambda>v1.
             bind_err (uninitialized_value_construct_n T (buffer_m (data_m v1))
                         (GetAddress (data_m v1) + unat (size_m v1)) (unat (new_size - size_m v1)))
               (\<lambda>b. Inr ((set_buffer v1 b)\<lparr>size_m := new_size\<rparr>))))"

text \<open>\<^verbatim>\<open>void PushBack(const T& value)\<close>. The argument is an object of its own, outside
  the vector: a one-slot block.\<close>

definition PushBack :: "'a element_type \<Rightarrow> 'a \<Rightarrow> 'a Vector \<Rightarrow> error + 'a Vector" where
  "PushBack T val v =
     (if size_m v = Capacity v then
        let new_data = RawMemory_sized (if size_m v = 0 then 1 else size_m v * 2) in
        bind_err (uninitialized_copy_n [Some val] 0 1 (buffer_m new_data)
                    (GetAddress new_data + unat (size_m v)))
          (\<lambda>nb0.
             bind_err
               (if is_nothrow_move_constructible T \<or> \<not> is_copy_constructible T
                then uninitialized_move_n T (buffer_m (data_m v)) (GetAddress (data_m v))
                       (unat (size_m v)) nb0 (GetAddress new_data)
                else bind_err (uninitialized_copy_n (buffer_m (data_m v)) (GetAddress (data_m v))
                                 (unat (size_m v)) nb0 (GetAddress new_data))
                       (\<lambda>nb. Inr (buffer_m (data_m v), nb)))
               (\<lambda>(ob, nb).
                  bind_err (destroy_n ob (GetAddress (data_m v)) (unat (size_m v)))
                    (\<lambda>ob'. let (d, old) = RawMemory_Swap ((data_m v)\<lparr>buffer_m := ob'\<rparr>)
                                             (new_data\<lparr>buffer_m := nb\<rparr>)
                           in Inr \<lparr>data_m = d, size_m = size_m v + 1\<rparr>)))
      else
        bind_err (RawMemory_plus (data_m v) (size_m v))
          (\<lambda>p. bind_err (construct_at (buffer_m (data_m v)) p val)
                  (\<lambda>b. Inr ((set_buffer v b)\<lparr>size_m := size_m v + 1\<rparr>))))"

text \<open>\<^verbatim>\<open>void PushBack(T&& value)\<close>. What the move leaves in the caller's object is the
  caller's.\<close>

definition PushBack_rvalue :: "'a element_type \<Rightarrow> 'a \<Rightarrow> 'a Vector \<Rightarrow> error + 'a Vector" where
  "PushBack_rvalue T val v =
     (if size_m v = Capacity v then
        let new_data = RawMemory_sized (if size_m v = 0 then 1 else size_m v * 2) in
        bind_err (uninitialized_move_n T [Some val] 0 1 (buffer_m new_data)
                    (GetAddress new_data + unat (size_m v)))
          (\<lambda>(arg, nb0).
             bind_err
               (if is_nothrow_move_constructible T \<or> \<not> is_copy_constructible T
                then uninitialized_move_n T (buffer_m (data_m v)) (GetAddress (data_m v))
                       (unat (size_m v)) nb0 (GetAddress new_data)
                else bind_err (uninitialized_copy_n (buffer_m (data_m v)) (GetAddress (data_m v))
                                 (unat (size_m v)) nb0 (GetAddress new_data))
                       (\<lambda>nb. Inr (buffer_m (data_m v), nb)))
               (\<lambda>(ob, nb).
                  bind_err (destroy_n ob (GetAddress (data_m v)) (unat (size_m v)))
                    (\<lambda>ob'. let (d, old) = RawMemory_Swap ((data_m v)\<lparr>buffer_m := ob'\<rparr>)
                                             (new_data\<lparr>buffer_m := nb\<rparr>)
                           in Inr \<lparr>data_m = d, size_m = size_m v + 1\<rparr>)))
      else
        bind_err (RawMemory_plus (data_m v) (size_m v))
          (\<lambda>p. bind_err (construct_at (buffer_m (data_m v)) p val)
                  (\<lambda>b. Inr ((set_buffer v b)\<lparr>size_m := size_m v + 1\<rparr>))))"

text \<open>\<^verbatim>\<open>void PopBack() noexcept\<close>.\<close>

definition PopBack :: "'a Vector \<Rightarrow> error + 'a Vector" where
  "PopBack v =
     (if size_m v > 0 then
        bind_err (destroy_at (buffer_m (data_m v)) (GetAddress (data_m v) + unat (size_m v) - 1))
          (\<lambda>b. Inr ((set_buffer v b)\<lparr>size_m := size_m v - 1\<rparr>))
      else Inr v)"

text \<open>\<^verbatim>\<open>Vector& operator=(const Vector& other)\<close>, the body under
  \<^verbatim>\<open>if (this != &other)\<close>: this vector afterwards. \<open>other\<close> is read only.\<close>

definition copy_assign_from :: "'a Vector \<Rightarrow> 'a Vector \<Rightarrow> error + 'a Vector" where
  "copy_assign_from v other =
     (if size_m other \<le> RawMemory_Capacity (data_m v) then
        bind_err
          (if size_m v \<le> size_m other then
             bind_err (std_copy (buffer_m (data_m other)) (GetAddress (data_m other))
                         (GetAddress (data_m other) + unat (size_m v))
                         (buffer_m (data_m v)) (GetAddress (data_m v)))
               (\<lambda>b. uninitialized_copy_n (buffer_m (data_m other))
                       (GetAddress (data_m other) + unat (size_m v))
                       (unat (size_m other - size_m v))
                       b (GetAddress (data_m v) + unat (size_m v)))
           else
             bind_err (std_copy (buffer_m (data_m other)) (GetAddress (data_m other))
                         (GetAddress (data_m other) + unat (size_m other))
                         (buffer_m (data_m v)) (GetAddress (data_m v)))
               (\<lambda>b. destroy_n b (GetAddress (data_m v) + unat (size_m other))
                       (unat (size_m v - size_m other))))
          (\<lambda>b. Inr ((set_buffer v b)\<lparr>size_m := size_m other\<rparr>))
      else
        bind_err (Vector_copy other) (\<lambda>other_copy. Inr (fst (Swap v other_copy))))"

text \<open>\<^verbatim>\<open>T& operator[](size_t index)\<close> with its \<^verbatim>\<open>assert(index < size_)\<close>, and the
  value read through the reference.\<close>

definition Vector_index :: "'a Vector \<Rightarrow> size_t \<Rightarrow> error + nat" where
  "Vector_index v index =
     (if index < size_m v then RawMemory_index (data_m v) index else Inl AssertionFailed)"

definition Vector_at :: "'a Vector \<Rightarrow> size_t \<Rightarrow> error + 'a" where
  "Vector_at v index = bind_err (Vector_index v index) (load (buffer_m (data_m v)))"

text \<open>\<^verbatim>\<open>T& EmplaceBack(Args&&... args)\<close>; \<open>val\<close> is the value of \<^verbatim>\<open>T(args...)\<close>. The
  vector afterwards and the position of the new element.\<close>

definition EmplaceBack :: "'a element_type \<Rightarrow> 'a \<Rightarrow> 'a Vector \<Rightarrow> error + ('a Vector \<times> nat)" where
  "EmplaceBack T val v =
     (if size_m v = Capacity v then
        let new_data = RawMemory_sized (if size_m v = 0 then 1 else size_m v * 2) in
        bind_err (RawMemory_plus new_data (size_m v))
          (\<lambda>result.
             bind_err (construct_at (buffer_m new_data) result val)
               (\<lambda>nb0.
                  bind_err
                    (if is_nothrow_move_constructible T \<or> \<not> is_copy_constructible T
                     then uninitialized_move_n T (buffer_m (data_m v)) (GetAddress (data_m v))
                            (unat (size_m v)) nb0 (GetAddress new_data)
                     else bind_err (uninitialized_copy_n (buffer_m (data_m v))
                                      (GetAddress (data_m v)) (unat (size_m v)) nb0
                                      (GetAddress new_data))
                            (\<lambda>nb. Inr (buffer_m (data_m v), nb)))
                    (\<lambda>(ob, nb).
                       bind_err (destroy_n ob (GetAddress (data_m v)) (unat (size_m v)))
                         (\<lambda>ob'. let (d, old) = RawMemory_Swap ((data_m v)\<lparr>buffer_m := ob'\<rparr>)
                                                  (new_data\<lparr>buffer_m := nb\<rparr>)
                                in Inr (\<lparr>data_m = d, size_m = size_m v + 1\<rparr>, result)))))
      else
        bind_err (RawMemory_plus (data_m v) (size_m v))
          (\<lambda>result.
             bind_err (construct_at (buffer_m (data_m v)) result val)
               (\<lambda>b. Inr ((set_buffer v b)\<lparr>size_m := size_m v + 1\<rparr>, result))))"

text \<open>\<^verbatim>\<open>iterator Emplace(const_iterator pos, Args&&... args)\<close>; \<open>val\<close> is the value of
  \<^verbatim>\<open>T(args...)\<close>. The vector afterwards and the iterator returned.\<close>

definition Emplace ::
  "'a element_type \<Rightarrow> nat \<Rightarrow> 'a \<Rightarrow> 'a Vector \<Rightarrow> error + ('a Vector \<times> nat)" where
  "Emplace T pos val v =
     (if \<not> (pos \<ge> Vector_begin v \<and> pos \<le> Vector_end v) then Inl AssertionFailed
      else
        let shift = (word_of_nat (pos - Vector_begin v) :: size_t) in
        if size_m v = Capacity v then
          let new_data = RawMemory_sized (if size_m v = 0 then 1 else size_m v * 2) in
          bind_err (RawMemory_plus new_data shift)
            (\<lambda>result.
               bind_err (construct_at (buffer_m new_data) result val)
                 (\<lambda>nb0.
                    bind_err
                      (if is_nothrow_move_constructible T \<or> \<not> is_copy_constructible T
                       then
                         bind_err (uninitialized_move_n T (buffer_m (data_m v))
                                     (GetAddress (data_m v)) (unat shift) nb0 (GetAddress new_data))
                           (\<lambda>(ob1, nb1).
                              uninitialized_move_n T ob1 (GetAddress (data_m v) + unat shift)
                                (unat (size_m v - shift)) nb1
                                (GetAddress new_data + unat shift + 1))
                       else
                         bind_err (uninitialized_copy_n (buffer_m (data_m v))
                                     (GetAddress (data_m v)) (unat shift) nb0 (GetAddress new_data))
                           (\<lambda>nb1.
                              bind_err (uninitialized_copy_n (buffer_m (data_m v))
                                          (GetAddress (data_m v) + unat shift)
                                          (unat (size_m v - shift)) nb1
                                          (GetAddress new_data + unat shift + 1))
                                (\<lambda>nb. Inr (buffer_m (data_m v), nb))))
                      (\<lambda>(ob, nb).
                         bind_err (destroy_n ob (Vector_begin v) (unat (size_m v)))
                           (\<lambda>ob'. let (d, old) = RawMemory_Swap ((data_m v)\<lparr>buffer_m := ob'\<rparr>)
                                                    (new_data\<lparr>buffer_m := nb\<rparr>)
                                  in Inr (\<lparr>data_m = d, size_m = size_m v + 1\<rparr>, result)))))
        else
          bind_err
            (if size_m v \<noteq> 0 then
               bind_err (RawMemory_plus (data_m v) (size_m v))
                 (\<lambda>p.
                    bind_err (move_out T (buffer_m (data_m v))
                                (GetAddress (data_m v) + unat (size_m v) - 1))
                      (\<lambda>(x, b1).
                         bind_err (construct_at b1 p x)
                           (\<lambda>b2.
                              bind_err (std_move_backward T b2 (Vector_begin v + unat shift)
                                          (GetAddress (data_m v) + unat (size_m v))
                                          (GetAddress (data_m v) + unat (size_m v) + 1))
                                (\<lambda>b3. destroy_at b3 (Vector_begin v + unat shift)))))
             else Inr (buffer_m (data_m v)))
            (\<lambda>b4.
               bind_err (RawMemory_plus (data_m v) shift)
                 (\<lambda>result.
                    bind_err (construct_at b4 result val)
                      (\<lambda>b5. Inr ((set_buffer v b5)\<lparr>size_m := size_m v + 1\<rparr>, result)))))"

text \<open>\<^verbatim>\<open>iterator Insert(const_iterator pos, const T& value)\<close> and
  \<^verbatim>\<open>iterator Insert(const_iterator pos, T&& value)\<close>: both return
  \<^verbatim>\<open>Emplace(pos, ...)\<close> of their argument.\<close>

definition Insert ::
  "'a element_type \<Rightarrow> nat \<Rightarrow> 'a \<Rightarrow> 'a Vector \<Rightarrow> error + ('a Vector \<times> nat)" where
  "Insert T pos val v = Emplace T pos val v"

text \<open>\<^verbatim>\<open>iterator Erase(const_iterator pos)\<close>: the vector afterwards and the iterator
  returned.\<close>

definition Erase :: "'a element_type \<Rightarrow> nat \<Rightarrow> 'a Vector \<Rightarrow> error + ('a Vector \<times> nat)" where
  "Erase T pos v =
     (if \<not> (pos \<ge> Vector_begin v \<and> pos < Vector_end v) then Inl AssertionFailed
      else
        let shift = (word_of_nat (pos - Vector_begin v) :: size_t) in
        bind_err (std_move T (buffer_m (data_m v)) (Vector_begin v + unat shift + 1)
                    (Vector_end v) (Vector_begin v + unat shift))
          (\<lambda>b. bind_err (PopBack (set_buffer v b))
                  (\<lambda>v'. Inr (v', Vector_begin v' + unat shift))))"

subsection \<open>Operations on two objects\<close>

text \<open>Copy assignment compares addresses (\<^verbatim>\<open>this != &other\<close>), and \<^verbatim>\<open>Swap\<close> and move
  assignment take a reference that may be to the object itself. The objects of a program
  are a store of vectors by address.\<close>

type_synonym 'a store = "nat \<Rightarrow> 'a Vector"

text \<open>\<^verbatim>\<open>Vector& operator=(const Vector& other)\<close>.\<close>

definition copy_assign :: "'a store \<Rightarrow> nat \<Rightarrow> nat \<Rightarrow> error + 'a store" where
  "copy_assign s this other =
     (if this \<noteq> other
      then bind_err (copy_assign_from (s this) (s other)) (\<lambda>v. Inr (s(this := v)))
      else Inr s)"

text \<open>\<^verbatim>\<open>void Swap(Vector& other) noexcept\<close>. With \<open>other\<close> the object itself each
  \<^verbatim>\<open>std::swap\<close> exchanges a member with itself and nothing changes.\<close>

definition store_Swap :: "'a store \<Rightarrow> nat \<Rightarrow> nat \<Rightarrow> 'a store" where
  "store_Swap s this other =
     (if this = other then s
      else let (v, ov) = Swap (s this) (s other) in s(this := v, other := ov))"

text \<open>\<^verbatim>\<open>Vector& operator=(Vector&& other) noexcept\<close>.\<close>

definition move_assign :: "'a store \<Rightarrow> nat \<Rightarrow> nat \<Rightarrow> 'a store" where
  "move_assign s this other = store_Swap s this other"

subsection \<open>Programs: sequences of calls on the objects of a store\<close>

datatype 'a call =
    Construct_default nat
  | Construct_sized nat size_t
  | Construct_copy nat nat
  | Construct_move nat nat
  | Call_Swap nat nat
  | Call_Reserve nat size_t
  | Call_Resize nat size_t
  | Call_PushBack nat 'a
  | Call_PushBack_rvalue nat 'a
  | Call_PopBack nat
  | Call_copy_assign nat nat
  | Call_move_assign nat nat
  | Call_EmplaceBack nat 'a
  | Call_Emplace nat nat 'a
  | Call_Erase nat nat
  | Call_Insert nat nat 'a

text \<open>One call: the first argument of each constructor of \<open>call\<close> is the address of the
  object the member function is called on (or that the constructor brings to life).\<close>

fun do_call :: "'a element_type \<Rightarrow> 'a call \<Rightarrow> 'a store \<Rightarrow> error + 'a store" where
  "do_call T (Construct_default this) s = Inr (s(this := Vector_default))"
| "do_call T (Construct_sized this n) s =
     bind_err (Vector_sized T n) (\<lambda>v. Inr (s(this := v)))"
| "do_call T (Construct_copy this other) s =
     bind_err (Vector_copy (s other)) (\<lambda>v. Inr (s(this := v)))"
| "do_call T (Construct_move this other) s =
     (let (v, ov) = Vector_move (s other) in Inr (s(other := ov, this := v)))"
| "do_call T (Call_Swap this other) s = Inr (store_Swap s this other)"
| "do_call T (Call_Reserve this n) s =
     bind_err (Reserve T n (s this)) (\<lambda>v. Inr (s(this := v)))"
| "do_call T (Call_Resize this n) s =
     bind_err (Resize T n (s this)) (\<lambda>v. Inr (s(this := v)))"
| "do_call T (Call_PushBack this x) s =
     bind_err (PushBack T x (s this)) (\<lambda>v. Inr (s(this := v)))"
| "do_call T (Call_PushBack_rvalue this x) s =
     bind_err (PushBack_rvalue T x (s this)) (\<lambda>v. Inr (s(this := v)))"
| "do_call T (Call_PopBack this) s =
     bind_err (PopBack (s this)) (\<lambda>v. Inr (s(this := v)))"
| "do_call T (Call_copy_assign this other) s = copy_assign s this other"
| "do_call T (Call_move_assign this other) s = Inr (move_assign s this other)"
| "do_call T (Call_EmplaceBack this x) s =
     bind_err (EmplaceBack T x (s this)) (\<lambda>(v, r). Inr (s(this := v)))"
| "do_call T (Call_Emplace this pos x) s =
     bind_err (Emplace T pos x (s this)) (\<lambda>(v, r). Inr (s(this := v)))"
| "do_call T (Call_Erase this pos) s =
     bind_err (Erase T pos (s this)) (\<lambda>(v, r). Inr (s(this := v)))"
| "do_call T (Call_Insert this pos x) s =
     bind_err (Insert T pos x (s this)) (\<lambda>(v, r). Inr (s(this := v)))"

fun run :: "'a element_type \<Rightarrow> 'a call list \<Rightarrow> 'a store \<Rightarrow> error + 'a store" where
  "run T [] s = Inr s"
| "run T (c # cs) s = (case do_call T c s of Inl e \<Rightarrow> Inl e | Inr s' \<Rightarrow> run T cs s')"

section \<open>What a vector holds\<close>

text \<open>The elements of a vector, in order: the values of the objects in the first
  \<^verbatim>\<open>size_\<close> slots of its block.\<close>

definition elems :: "'a Vector \<Rightarrow> 'a list" where
  "elems v = map the (take (unat (size_m v)) (buffer_m (data_m v)))"

text \<open>The invariant of the length: \<open>0 \<le> length \<le> capacity\<close> (on unsigned numbers).\<close>

definition length_inv :: "'a Vector \<Rightarrow> bool" where
  "length_inv v \<longleftrightarrow> size_m v \<le> capacity_m (data_m v)"

text \<open>The invariant of the class: the block has \<^verbatim>\<open>capacity_\<close> slots, the first
  \<^verbatim>\<open>size_\<close> of them hold objects and the others are raw memory.\<close>

definition vector_inv :: "'a Vector \<Rightarrow> bool" where
  "vector_inv v \<longleftrightarrow>
     length (buffer_m (data_m v)) = unat (capacity_m (data_m v)) \<and>
     size_m v \<le> capacity_m (data_m v) \<and>
     list_all (\<lambda>slot. slot \<noteq> None) (take (unat (size_m v)) (buffer_m (data_m v))) \<and>
     list_all (\<lambda>slot. slot = None) (drop (unat (size_m v)) (buffer_m (data_m v)))"

text \<open>A vector given by its elements and its capacity.\<close>

definition vector_of :: "'a list \<Rightarrow> nat \<Rightarrow> 'a Vector" where
  "vector_of xs c =
     \<lparr>data_m = \<lparr>buffer_m = map Some xs @ replicate (c - length xs) None,
                capacity_m = word_of_nat c\<rparr>,
      size_m = word_of_nat (length xs)\<rparr>"

text \<open>What an append that had to grow the block leaves: the capacity doubled (1 for an
  empty block), one element more, the elements of before in their positions and the new
  value after them.\<close>

definition appended_with_growth :: "'a Vector \<Rightarrow> 'a \<Rightarrow> 'a Vector \<Rightarrow> bool" where
  "appended_with_growth v val v' \<longleftrightarrow>
     vector_inv v' \<and>
     unat (Capacity v') = max 1 (2 * unat (Capacity v)) \<and>
     unat (Size v') = unat (Size v) + 1 \<and>
     take (unat (Size v)) (elems v') = elems v \<and>
     elems v' = elems v @ [val]"

text \<open>A list of elements after its last element has been moved from.\<close>

definition last_moved :: "'a element_type \<Rightarrow> 'a list \<Rightarrow> 'a list" where
  "last_moved T xs = (if xs = [] then [] else butlast xs @ [moved_from T (last xs)])"

subsection \<open>Two element types\<close>

text \<open>\<^verbatim>\<open>int\<close>: a move is a copy. \<^verbatim>\<open>std::string\<close>: a move leaves the empty string.\<close>

definition int_type :: "int element_type" where
  "int_type = \<lparr>value_init = 0, moved_from = (\<lambda>x. x),
               is_nothrow_move_constructible = True, is_copy_constructible = True\<rparr>"

definition string_type :: "string element_type" where
  "string_type = \<lparr>value_init = [], moved_from = (\<lambda>x. []),
                  is_nothrow_move_constructible = True, is_copy_constructible = True\<rparr>"

section \<open>Lemmas on raw memory and the library algorithms\<close>

lemma bind_err_simps [simp]:
  "bind_err (Inr x) f = f x" "bind_err (Inl e) f = Inl e"
  by (simp_all add: bind_err_def)

lemma GetAddress_0 [simp]: "GetAddress m = 0"
  by (simp add: GetAddress_def)

lemma load_at: "length A = p \<Longrightarrow> load (A @ Some x # B) p = Inr x"
  by (auto simp: load_def)

lemma construct_at_at: "length A = p \<Longrightarrow> construct_at (A @ slot # B) p x = Inr (A @ Some x # B)"
  by (auto simp: construct_at_def)

lemma destroy_at_at: "length A = p \<Longrightarrow> destroy_at (A @ Some x # B) p = Inr (A @ None # B)"
  by (auto simp: destroy_at_def load_at)

lemma assign_at_at: "length A = p \<Longrightarrow> assign_at (A @ Some y # B) p x = Inr (A @ Some x # B)"
  by (auto simp: assign_at_def load_at)

lemma move_out_at:
  "length A = p \<Longrightarrow> move_out T (A @ Some x # B) p = Inr (x, A @ Some (moved_from T x) # B)"
  by (auto simp: move_out_def load_at)

lemma uninitialized_copy_n_shape:
  "length A = first \<Longrightarrow> length C = d \<Longrightarrow> length D = length xs \<Longrightarrow>
   uninitialized_copy_n (A @ map Some xs @ B) first (length xs) (C @ D @ E) d
     = Inr (C @ map Some xs @ E)"
proof (induction xs arbitrary: A C D first d)
  case Nil
  then show ?case by simp
next
  case (Cons x xs)
  then obtain y D' where D: "D = y # D'" by (cases D) auto
  have "uninitialized_copy_n ((A @ [Some x]) @ map Some xs @ B) (Suc first) (length xs)
          ((C @ [Some x]) @ D' @ E) (Suc d) = Inr ((C @ [Some x]) @ map Some xs @ E)"
    using Cons.prems D by (intro Cons.IH) auto
  then show ?case
    using Cons.prems D by (simp add: load_at construct_at_at)
qed

lemma uninitialized_move_n_shape:
  "length A = first \<Longrightarrow> length C = d \<Longrightarrow> length D = length xs \<Longrightarrow>
   uninitialized_move_n T (A @ map Some xs @ B) first (length xs) (C @ D @ E) d
     = Inr (A @ map (\<lambda>x. Some (moved_from T x)) xs @ B, C @ map Some xs @ E)"
proof (induction xs arbitrary: A C D first d)
  case Nil
  then show ?case by simp
next
  case (Cons x xs)
  then obtain y D' where D: "D = y # D'" by (cases D) auto
  have "uninitialized_move_n T ((A @ [Some (moved_from T x)]) @ map Some xs @ B) (Suc first) (length xs)
          ((C @ [Some x]) @ D' @ E) (Suc d)
        = Inr ((A @ [Some (moved_from T x)]) @ map (\<lambda>x. Some (moved_from T x)) xs @ B,
               (C @ [Some x]) @ map Some xs @ E)"
    using Cons.prems D by (intro Cons.IH) auto
  then show ?case
    using Cons.prems D by (simp add: move_out_at construct_at_at)
qed

lemma destroy_n_shape:
  "length A = first \<Longrightarrow>
   destroy_n (A @ map Some xs @ B) first (length xs) = Inr (A @ replicate (length xs) None @ B)"
proof (induction xs arbitrary: A first)
  case Nil
  then show ?case by simp
next
  case (Cons x xs)
  have "destroy_n ((A @ [None]) @ map Some xs @ B) (Suc first) (length xs)
        = Inr ((A @ [None]) @ replicate (length xs) None @ B)"
    using Cons.prems by (intro Cons.IH) auto
  then show ?case
    using Cons.prems by (simp add: destroy_at_at)
qed

lemma uninitialized_value_construct_n_shape:
  "length A = first \<Longrightarrow> length D = n \<Longrightarrow>
   uninitialized_value_construct_n T (A @ D @ B) first n
     = Inr (A @ replicate n (Some (value_init T)) @ B)"
proof (induction D arbitrary: A first n)
  case Nil
  then show ?case by simp
next
  case (Cons y D)
  then obtain m where n: "n = Suc m" "length D = m" by (cases n) auto
  have "uninitialized_value_construct_n T ((A @ [Some (value_init T)]) @ D @ B) (Suc first) m
        = Inr ((A @ [Some (value_init T)]) @ replicate m (Some (value_init T)) @ B)"
    using Cons.prems n by (intro Cons.IH) auto
  then show ?case
    using Cons.prems n by (simp add: construct_at_at)
qed

lemma copy_n_assign_shape:
  "length A = first \<Longrightarrow> length C = d \<Longrightarrow> length ys = length xs \<Longrightarrow>
   copy_n_assign (A @ map Some xs @ B) first (length xs) (C @ map Some ys @ E) d
     = Inr (C @ map Some xs @ E)"
proof (induction xs arbitrary: A C ys first d)
  case Nil
  then show ?case by simp
next
  case (Cons x xs)
  then obtain y ys' where ys: "ys = y # ys'" by (cases ys) auto
  have "copy_n_assign ((A @ [Some x]) @ map Some xs @ B) (Suc first) (length xs)
          ((C @ [Some x]) @ map Some ys' @ E) (Suc d) = Inr ((C @ [Some x]) @ map Some xs @ E)"
    using Cons.prems ys by (intro Cons.IH) auto
  then show ?case
    using Cons.prems ys by (simp add: load_at assign_at_at)
qed

lemma move_n_assign_shape:
  "length P = d \<Longrightarrow>
   move_n_assign T (P @ Some y # map Some xs @ Q) (Suc d) (length xs) d
     = Inr (P @ map Some xs @ Some (if xs = [] then y else moved_from T (last xs)) # Q)"
proof (induction xs arbitrary: P y d)
  case Nil
  then show ?case by simp
next
  case (Cons x xs)
  have mo: "move_out T (P @ Some y # Some x # map Some xs @ Q) (Suc d)
            = Inr (x, P @ Some y # Some (moved_from T x) # map Some xs @ Q)"
    using move_out_at [of "P @ [Some y]" "Suc d" T x "map Some xs @ Q"] Cons.prems by simp
  have IH: "move_n_assign T ((P @ [Some x]) @ Some (moved_from T x) # map Some xs @ Q) (Suc (Suc d)) (length xs) (Suc d)
        = Inr ((P @ [Some x]) @ map Some xs @ Some (if xs = [] then moved_from T x else moved_from T (last xs)) # Q)"
    using Cons.prems by (intro Cons.IH) auto
  show ?case
    using Cons.prems IH by (simp add: mo assign_at_at)
qed

lemma move_backward_n_shape:
  "length P + length xs = e \<Longrightarrow>
   move_backward_n T (P @ map Some xs @ Some z # Q) (length xs) e (Suc e)
     = Inr (P @ (if xs = [] then [Some z] else Some (moved_from T (hd xs)) # map Some xs) @ Q)"
proof (induction xs arbitrary: z Q e rule: rev_induct)
  case Nil
  then show ?case by simp
next
  case (snoc x xs)
  define k where "k = length P + length xs"
  have e: "e = Suc k" using snoc.prems by (simp add: k_def)
  have mo: "move_out T (P @ map Some xs @ Some x # Some z # Q) k
            = Inr (x, P @ map Some xs @ Some (moved_from T x) # Some z # Q)"
    using move_out_at [of "P @ map Some xs" k T x "Some z # Q"] by (simp add: k_def)
  have as: "assign_at (P @ map Some xs @ Some (moved_from T x) # Some z # Q) (Suc k) x
            = Inr (P @ map Some xs @ Some (moved_from T x) # Some x # Q)"
    using assign_at_at [of "P @ map Some xs @ [Some (moved_from T x)]" "Suc k" z Q x]
    by (simp add: k_def)
  have IH: "move_backward_n T (P @ map Some xs @ Some (moved_from T x) # (Some x # Q)) (length xs) k (Suc k)
        = Inr (P @ (if xs = [] then [Some (moved_from T x)] else Some (moved_from T (hd xs)) # map Some xs) @ (Some x # Q))"
    by (intro snoc.IH) (simp add: k_def)
  have "move_backward_n T (P @ map Some (xs @ [x]) @ Some z # Q) (length (xs @ [x])) (Suc k) (Suc (Suc k))
        = move_backward_n T (P @ map Some xs @ Some (moved_from T x) # (Some x # Q)) (length xs) k (Suc k)"
    by (simp add: mo as)
  also have "\<dots> = Inr (P @ (Some (moved_from T (hd (xs @ [x]))) # map Some (xs @ [x])) @ Q)"
    unfolding IH by (cases xs) simp_all
  finally show ?case using e by simp
qed

section \<open>Lemmas on the invariant and on \<^verbatim>\<open>size_t\<close>\<close>

lemma Allocate_eq: "Allocate n = replicate (unat n) None"
  by (simp add: Allocate_def)

lemma Capacity_eq [simp]: "Capacity v = capacity_m (data_m v)"
  by (simp add: Capacity_def RawMemory_Capacity_def)

lemma all_Some_map: "list_all (\<lambda>slot. slot \<noteq> None) xs \<Longrightarrow> map Some (map the xs) = xs"
  by (induction xs) auto

lemma all_None_replicate: "list_all (\<lambda>slot. slot = None) xs \<Longrightarrow> xs = replicate (length xs) None"
  by (induction xs) auto

lemma vector_inv_shape:
  assumes "vector_inv v"
  shows "buffer_m (data_m v) = map Some (elems v)
           @ replicate (unat (capacity_m (data_m v)) - unat (size_m v)) None"
    and "length (elems v) = unat (size_m v)"
    and "unat (size_m v) \<le> unat (capacity_m (data_m v))"
proof -
  let ?b = "buffer_m (data_m v)" and ?n = "unat (size_m v)"
  from assms have len: "length ?b = unat (capacity_m (data_m v))"
    and le: "size_m v \<le> capacity_m (data_m v)"
    and a: "list_all (\<lambda>slot. slot \<noteq> None) (take ?n ?b)"
    and d: "list_all (\<lambda>slot. slot = None) (drop ?n ?b)"
    by (simp_all add: vector_inv_def)
  show le': "?n \<le> unat (capacity_m (data_m v))"
    using le by (simp add: word_le_nat_alt)
  show "length (elems v) = ?n"
    using len le' by (simp add: elems_def)
  have "?b = take ?n ?b @ drop ?n ?b" by simp
  also have "take ?n ?b = map Some (elems v)"
    using all_Some_map [OF a] by (simp add: elems_def)
  also have "drop ?n ?b = replicate (unat (capacity_m (data_m v)) - ?n) None"
    using all_None_replicate [OF d] len by simp
  finally show "?b = map Some (elems v) @ replicate (unat (capacity_m (data_m v)) - ?n) None" .
qed

lemma vector_invI:
  assumes "buffer_m (data_m v) = map Some xs @ replicate k None"
    and "unat (size_m v) = length xs"
    and "unat (capacity_m (data_m v)) = length xs + k"
  shows "vector_inv v" and "elems v = xs"
  using assms by (simp_all add: vector_inv_def elems_def word_le_nat_alt list_all_iff comp_def)

lemma unat_Suc_less: "(x :: size_t) < y \<Longrightarrow> unat (x + 1) = Suc (unat x)"
proof -
  assume "x < y"
  then have "unat x < unat y" by (simp add: word_less_nat_alt)
  moreover have "unat y < 2 ^ 64" using unsigned_less [of y] by simp
  ultimately have "unat x + unat (1 :: size_t) < 2 ^ LENGTH(64)" by simp
  then have "unat (x + 1) = unat x + unat (1 :: size_t)"
    by (simp only: unat_add_lem)
  then show ?thesis by simp
qed

lemma unat_double:
  assumes "unat (s :: size_t) < unat (if s = 0 then 1 else s * 2)"
  shows "unat (if s = 0 then 1 else s * 2) = max 1 (2 * unat s)"
proof (cases "s = 0")
  case True
  then show ?thesis by simp
next
  case False
  then have pos: "0 < unat s" by (simp add: unat_gt_0)
  have m: "unat (s * 2) = (unat s * 2) mod 2 ^ 64"
    by (simp add: unat_word_ariths)
  have lt: "unat s < 2 ^ 64" using unsigned_less [of s] by simp
  show ?thesis
  proof (cases "unat s * 2 < 2 ^ 64")
    case True
    then show ?thesis using False pos m by simp
  next
    case False
    then have "(unat s * 2) mod 2 ^ 64 = unat s * 2 - 2 ^ 64"
      using lt by (simp add: mod_if)
    then have "unat (s * 2) < unat s" using m lt False by simp
    then show ?thesis using assms \<open>s \<noteq> 0\<close> by simp
  qed
qed

section \<open>Lemmas on the operations of Vector\<close>

lemma PopBack_spec:
  assumes "vector_inv v"
  shows "\<exists>v'. PopBack v = Inr v' \<and> vector_inv v' \<and> Capacity v' = Capacity v \<and>
           (if Size v = 0 then v' = v
            else unat (Size v') = unat (Size v) - 1 \<and> elems v' = butlast (elems v))"
proof (cases "size_m v = 0")
  case True
  then show ?thesis using assms by (simp add: PopBack_def Size_def)
next
  case False
  let ?k = "unat (capacity_m (data_m v)) - unat (size_m v)"
  note sh = vector_inv_shape [OF assms]
  from False have pos: "0 < unat (size_m v)" by (simp add: unat_gt_0)
  with sh(2) obtain ys y where xs: "elems v = ys @ [y]"
    by (cases "elems v" rule: rev_cases) auto
  have n: "unat (size_m v) = Suc (length ys)" using sh(2) xs by simp
  have buf: "buffer_m (data_m v) = map Some ys @ Some y # replicate ?k None"
    using sh(1) xs by simp
  have d: "destroy_at (buffer_m (data_m v)) (GetAddress (data_m v) + unat (size_m v) - 1)
           = Inr (map Some ys @ replicate (Suc ?k) None)"
    unfolding buf using destroy_at_at [of "map Some ys" "length ys" y "replicate ?k None"] n
    by simp
  let ?v' = "(set_buffer v (map Some ys @ replicate (Suc ?k) None))\<lparr>size_m := size_m v - 1\<rparr>"
  have r: "PopBack v = Inr ?v'"
    using False d by (simp add: PopBack_def word_greater_zero_iff)
  have s': "unat (size_m ?v') = length ys"
    using False n by (simp add: unat_minus_one)
  have c': "unat (capacity_m (data_m ?v')) = length ys + Suc ?k"
    using sh(3) n by (simp add: set_buffer_def)
  have b': "buffer_m (data_m ?v') = map Some ys @ replicate (Suc ?k) None"
    by (simp add: set_buffer_def)
  note I = vector_invI [OF b' s' c']
  show ?thesis
    using False r I s' n xs by (simp add: Size_def set_buffer_def)
qed

lemma vector_inv_obtain:
  assumes "vector_inv v"
  obtains xs k where "elems v = xs"
    and "buffer_m (data_m v) = map Some xs @ replicate k None"
    and "unat (size_m v) = length xs"
    and "unat (capacity_m (data_m v)) = length xs + k"
  using vector_inv_shape [OF assms] by (metis le_add_diff_inverse)

lemma transfer_shape:
  assumes "length D = length xs"
  shows "(if c then uninitialized_move_n T (map Some xs @ B) 0 (length xs) (D @ E) 0
          else bind_err (uninitialized_copy_n (map Some xs @ B) 0 (length xs) (D @ E) 0)
                 (\<lambda>nb. Inr (map Some xs @ B, nb)))
         = Inr (map Some (if c then map (moved_from T) xs else xs) @ B, map Some xs @ E)"
  using uninitialized_move_n_shape [of "[]" 0 "[]" 0 D xs T B E]
        uninitialized_copy_n_shape [of "[]" 0 "[]" 0 D xs B E] assms
  by (simp add: comp_def)

lemma destroy_n_all:
  "length xs = n \<Longrightarrow> \<exists>b. destroy_n (map Some xs @ B) 0 n = Inr b"
  using destroy_n_shape [of "[]" 0 xs B] by auto

lemma Reserve_spec:
  assumes "vector_inv v" "Capacity v < n"
  shows "\<exists>v'. Reserve T n v = Inr v' \<and> vector_inv v' \<and> Capacity v' = n \<and>
           Size v' = Size v \<and> elems v' = elems v"
proof -
  let ?c = "is_nothrow_move_constructible T \<or> \<not> is_copy_constructible T"
  from assms(1) obtain xs k where xs: "elems v = xs"
    and buf: "buffer_m (data_m v) = map Some xs @ replicate k None"
    and sz: "unat (size_m v) = length xs"
    and cap: "unat (capacity_m (data_m v)) = length xs + k"
    by (rule vector_inv_obtain)
  have lt: "unat (capacity_m (data_m v)) < unat n"
    using assms(2) by (simp add: word_less_nat_alt)
  define m where "m = unat n - length xs"
  have n: "unat n = length xs + m" using lt cap by (simp add: m_def)
  have nb: "buffer_m (RawMemory_sized n :: 'a RawMemory)
            = replicate (length xs) None @ replicate m None"
    by (simp add: RawMemory_sized_def Allocate_eq n replicate_add)
  define ys where "ys = (if ?c then map (moved_from T) xs else xs)"
  have ys: "length ys = length xs" by (simp add: ys_def)
  have t: "(if ?c
            then uninitialized_move_n T (buffer_m (data_m v)) (GetAddress (data_m v))
                   (unat (size_m v)) (buffer_m (RawMemory_sized n :: 'a RawMemory))
                   (GetAddress (RawMemory_sized n :: 'a RawMemory))
            else bind_err (uninitialized_copy_n (buffer_m (data_m v)) (GetAddress (data_m v))
                             (unat (size_m v)) (buffer_m (RawMemory_sized n :: 'a RawMemory))
                             (GetAddress (RawMemory_sized n :: 'a RawMemory)))
                   (\<lambda>nb. Inr (buffer_m (data_m v), nb)))
           = Inr (map Some ys @ replicate k None, map Some xs @ replicate m None)"
    unfolding buf sz nb GetAddress_def ys_def by (rule transfer_shape) simp
  obtain ob where d: "destroy_n (map Some ys @ replicate k None) 0 (unat (size_m v)) = Inr ob"
    using destroy_n_all [of ys "unat (size_m v)"] sz ys by auto
  let ?v' = "v\<lparr>data_m := \<lparr>buffer_m = map Some xs @ replicate m None, capacity_m = n\<rparr>\<rparr>"
  have r: "Reserve T n v = Inr ?v'"
    unfolding Reserve_def Let_def t
    using assms(2) d by (simp add: RawMemory_Swap_def RawMemory_sized_def RawMemory_Capacity_def)
  have b': "buffer_m (data_m ?v') = map Some xs @ replicate m None"
    by simp
  have s': "unat (size_m ?v') = length xs" using sz by simp
  have c': "unat (capacity_m (data_m ?v')) = length xs + m"
    using n by simp
  note I = vector_invI [OF b' s' c']
  show ?thesis
    using r I xs by (simp add: Size_def)
qed

lemma Reserve_noop: "n \<le> Capacity v \<Longrightarrow> Reserve T n v = Inr v"
  by (simp add: Reserve_def RawMemory_Capacity_def)

lemma value_construct_tail:
  assumes "vector_inv v" "size_m v \<le> n" "n \<le> capacity_m (data_m v)"
  shows "\<exists>b. uninitialized_value_construct_n T (buffer_m (data_m v))
                (GetAddress (data_m v) + unat (size_m v)) (unat (n - size_m v)) = Inr b \<and>
              vector_inv ((set_buffer v b)\<lparr>size_m := n\<rparr>) \<and>
              elems ((set_buffer v b)\<lparr>size_m := n\<rparr>)
                = elems v @ replicate (unat n - unat (size_m v)) (value_init T)"
proof -
  from assms(1) obtain xs k where xs: "elems v = xs"
    and buf: "buffer_m (data_m v) = map Some xs @ replicate k None"
    and sz: "unat (size_m v) = length xs"
    and cap: "unat (capacity_m (data_m v)) = length xs + k"
    by (rule vector_inv_obtain)
  have le1: "length xs \<le> unat n" using assms(2) sz by (simp add: word_le_nat_alt)
  have le2: "unat n \<le> length xs + k" using assms(3) cap by (simp add: word_le_nat_alt)
  define j where "j = unat n - length xs"
  have cnt: "unat (n - size_m v) = j"
    using assms(2) sz by (simp add: unat_sub j_def)
  have k: "k = j + (k - j)" using le1 le2 by (simp add: j_def)
  have buf': "buffer_m (data_m v) = map Some xs @ replicate j None @ replicate (k - j) None"
    unfolding buf by (subst k) (simp only: replicate_add)
  let ?b = "map Some xs @ replicate j (Some (value_init T)) @ replicate (k - j) None"
  have u: "uninitialized_value_construct_n T (buffer_m (data_m v))
             (GetAddress (data_m v) + unat (size_m v)) (unat (n - size_m v)) = Inr ?b"
    unfolding buf' cnt sz GetAddress_def
    using uninitialized_value_construct_n_shape
            [of "map Some xs" "length xs" "replicate j None" j T "replicate (k - j) None"]
    by simp
  let ?v' = "(set_buffer v ?b)\<lparr>size_m := n\<rparr>"
  have b': "buffer_m (data_m ?v') = map Some (xs @ replicate j (value_init T)) @ replicate (k - j) None"
    by (simp add: set_buffer_def)
  have s': "unat (size_m ?v') = length (xs @ replicate j (value_init T))"
    using le1 by (simp add: j_def)
  have c': "unat (capacity_m (data_m ?v')) = length (xs @ replicate j (value_init T)) + (k - j)"
    using cap le1 le2 by (simp add: set_buffer_def j_def)
  note I = vector_invI [OF b' s' c']
  show ?thesis
    using u I xs sz by (auto simp: j_def)
qed

lemma Resize_shrink:
  assumes "vector_inv v" "n < size_m v"
  shows "\<exists>v'. Resize T n v = Inr v' \<and> vector_inv v' \<and> Size v' = n \<and>
               Capacity v' = Capacity v \<and> elems v' = take (unat n) (elems v)"
proof -
  from assms(1) obtain xs k where xs: "elems v = xs"
    and buf: "buffer_m (data_m v) = map Some xs @ replicate k None"
    and sz: "unat (size_m v) = length xs"
    and cap: "unat (capacity_m (data_m v)) = length xs + k"
    by (rule vector_inv_obtain)
  have lt: "unat n < length xs" using assms(2) sz by (simp add: word_less_nat_alt)
  define ys zs where "ys = take (unat n) xs" and "zs = drop (unat n) xs"
  have split: "xs = ys @ zs" and ly: "length ys = unat n" and lz: "length zs = length xs - unat n"
    using lt by (simp_all add: ys_def zs_def)
  have cnt: "unat (size_m v - n) = length zs"
    using assms(2) sz lz by (simp add: unat_sub)
  have buf': "buffer_m (data_m v) = map Some ys @ map Some zs @ replicate k None"
    unfolding buf by (simp add: split)
  let ?b = "map Some ys @ replicate (length zs) None @ replicate k None"
  have d: "destroy_n (buffer_m (data_m v)) (GetAddress (data_m v) + unat n) (unat (size_m v - n))
           = Inr ?b"
    unfolding buf' cnt GetAddress_def
    using destroy_n_shape [of "map Some ys" "unat n" zs "replicate k None"] ly by simp
  let ?v' = "(set_buffer v ?b)\<lparr>size_m := n\<rparr>"
  have r: "Resize T n v = Inr ?v'"
    using assms(2) d by (simp add: Resize_def)
  have b': "buffer_m (data_m ?v') = map Some ys @ replicate (length zs + k) None"
    by (simp add: set_buffer_def replicate_add)
  have s': "unat (size_m ?v') = length ys" using ly by simp
  have c': "unat (capacity_m (data_m ?v')) = length ys + (length zs + k)"
    using cap ly lz lt by (simp add: set_buffer_def)
  note I = vector_invI [OF b' s' c']
  show ?thesis
    using r I xs by (simp add: Size_def set_buffer_def ys_def)
qed

lemma Resize_grow:
  assumes "vector_inv v" "size_m v \<le> n"
  shows "\<exists>v'. Resize T n v = Inr v' \<and> vector_inv v' \<and> Size v' = n \<and>
               Capacity v' = (if Capacity v < n then max (Capacity v * 2) n else Capacity v) \<and>
               elems v' = elems v @ replicate (unat n - unat (Size v)) (value_init T)"
proof (cases "capacity_m (data_m v) < n")
  case False
  then have le: "n \<le> capacity_m (data_m v)" by simp
  from value_construct_tail [OF assms(1) assms(2) le, of T]
  show ?thesis
    using assms(2) False
    by (auto simp: Resize_def RawMemory_Capacity_def Size_def set_buffer_def)
next
  case True
  let ?c = "max (capacity_m (data_m v) * 2) n"
  have "Capacity v < ?c" using True by (simp add: less_max_iff_disj)
  from Reserve_spec [OF assms(1) this, of T]
  obtain v1 where r: "Reserve T ?c v = Inr v1" and inv1: "vector_inv v1"
    and c1: "capacity_m (data_m v1) = ?c" and s1: "size_m v1 = size_m v"
    and e1: "elems v1 = elems v"
    by (auto simp: Size_def)
  have le1: "size_m v1 \<le> n" using assms(2) s1 by simp
  have le2: "n \<le> capacity_m (data_m v1)" using c1 by simp
  from value_construct_tail [OF inv1 le1 le2, of T]
  show ?thesis
    using assms(2) True r c1 s1 e1
    by (auto simp: Resize_def RawMemory_Capacity_def Size_def set_buffer_def Let_def)
qed

lemma vector_of_inv:
  assumes "length xs \<le> c" "c < 2 ^ 64"
  shows "vector_inv (vector_of xs c)" and "elems (vector_of xs c) = xs"
    and "unat (Size (vector_of xs c)) = length xs"
    and "unat (Capacity (vector_of xs c)) = c"
proof -
  have c: "unat (word_of_nat c :: size_t) = c"
    using assms(2) by (simp add: unat_of_nat)
  have l: "unat (word_of_nat (length xs) :: size_t) = length xs"
    using assms by (simp add: unat_of_nat)
  have b: "buffer_m (data_m (vector_of xs c)) = map Some xs @ replicate (c - length xs) None"
    by (simp add: vector_of_def)
  have s: "unat (size_m (vector_of xs c)) = length xs"
    using l by (simp add: vector_of_def)
  have k: "unat (capacity_m (data_m (vector_of xs c))) = length xs + (c - length xs)"
    using c assms(1) by (simp add: vector_of_def)
  show "vector_inv (vector_of xs c)" and "elems (vector_of xs c) = xs"
    using vector_invI [OF b s k] by simp_all
  show "unat (Size (vector_of xs c)) = length xs" using s by (simp add: Size_def)
  show "unat (Capacity (vector_of xs c)) = c" using c by (simp add: vector_of_def)
qed


lemma unat_times_2: "unat (c :: size_t) < 2 ^ 63 \<Longrightarrow> unat (c * 2) = 2 * unat c"
  by (simp add: unat_word_ariths)

lemma length_RawMemory_sized [simp]:
  "length (buffer_m (RawMemory_sized c)) = unat c" "capacity_m (RawMemory_sized c) = c"
  by (simp_all add: RawMemory_sized_def Allocate_eq)

lemma grown_block:
  assumes "n < unat c"
  shows "buffer_m (RawMemory_sized c :: 'a RawMemory)
         = replicate n None @ None # replicate (unat c - n - 1) None"
proof -
  have "unat c = n + Suc (unat c - n - 1)" using assms by simp
  then have "replicate (unat c) (None :: 'a option)
             = replicate n None @ replicate (Suc (unat c - n - 1)) None"
    by (metis replicate_add)
  then show ?thesis by (simp add: RawMemory_sized_def Allocate_eq)
qed

lemma double_less:
  "unat (s :: size_t) < 2 ^ 63 \<Longrightarrow> unat s < unat (if s = 0 then 1 else s * 2)"
  by (cases "s = 0") (simp_all add: unat_times_2 unat_gt_0)

lemma PushBack_grow:
  assumes "vector_inv v" "size_m v = capacity_m (data_m v)"
    and lt: "unat (size_m v) < unat (if size_m v = 0 then 1 else size_m v * 2)"
  shows "\<exists>v'. PushBack T val v = Inr v' \<and> vector_inv v' \<and>
           Capacity v' = (if size_m v = 0 then 1 else size_m v * 2) \<and>
           Size v' = Size v + 1 \<and> unat (Size v') = unat (Size v) + 1 \<and>
           elems v' = elems v @ [val]"
proof -
  let ?c = "is_nothrow_move_constructible T \<or> \<not> is_copy_constructible T"
  let ?c' = "if size_m v = 0 then 1 else size_m v * 2 :: size_t"
  let ?nd = "RawMemory_sized ?c' :: 'a RawMemory"
  from assms(1) obtain xs k where xs: "elems v = xs"
    and buf: "buffer_m (data_m v) = map Some xs @ replicate k None"
    and sz: "unat (size_m v) = length xs"
    and cap: "unat (capacity_m (data_m v)) = length xs + k"
    by (rule vector_inv_obtain)
  define m where "m = unat ?c' - length xs - 1"
  have c': "unat ?c' = length xs + Suc m" using lt sz by (simp add: m_def)
  have nb: "buffer_m ?nd = replicate (length xs) None @ None # replicate m None"
    unfolding m_def by (rule grown_block) (use lt sz in simp)
  have step1: "uninitialized_copy_n [Some val] 0 1 (buffer_m ?nd)
                 (GetAddress ?nd + unat (size_m v))
               = Inr (replicate (length xs) None @ Some val # replicate m None)"
    unfolding nb sz GetAddress_def
    using uninitialized_copy_n_shape [of "[]" 0 "replicate (length xs) None" "length xs"
                                         "[None]" "[val]" "[]" "replicate m None"]
    by simp
  define ys where "ys = (if ?c then map (moved_from T) xs else xs)"
  have ys: "length ys = length xs" by (simp add: ys_def)
  have t: "(if ?c
            then uninitialized_move_n T (buffer_m (data_m v)) (GetAddress (data_m v))
                   (unat (size_m v)) (replicate (length xs) None @ Some val # replicate m None)
                   (GetAddress ?nd)
            else bind_err (uninitialized_copy_n (buffer_m (data_m v)) (GetAddress (data_m v))
                             (unat (size_m v))
                             (replicate (length xs) None @ Some val # replicate m None)
                             (GetAddress ?nd))
                   (\<lambda>nb. Inr (buffer_m (data_m v), nb)))
           = Inr (map Some ys @ replicate k None, map Some xs @ Some val # replicate m None)"
    unfolding buf sz GetAddress_def ys_def by (rule transfer_shape) simp
  obtain ob where d: "destroy_n (map Some ys @ replicate k None) 0 (unat (size_m v)) = Inr ob"
    using destroy_n_all [of ys "unat (size_m v)"] sz ys by auto
  let ?v' = "\<lparr>data_m = \<lparr>buffer_m = map Some (xs @ [val]) @ replicate m None, capacity_m = ?c'\<rparr>,
              size_m = size_m v + 1\<rparr>"
  have r: "PushBack T val v = Inr ?v'"
    unfolding PushBack_def Let_def step1 bind_err_simps t
    using assms(2) d by (simp add: RawMemory_Swap_def)
  have "size_m v < ?c'" using lt by (simp only: word_less_nat_alt)
  then have s1: "unat (size_m v + 1) = Suc (length xs)"
    using sz by (simp only: unat_Suc_less)
  have b': "buffer_m (data_m ?v') = map Some (xs @ [val]) @ replicate m None"
    by simp
  have s': "unat (size_m ?v') = length (xs @ [val])" using s1 by simp
  have k': "unat (capacity_m (data_m ?v')) = length (xs @ [val]) + m"
    using c' by simp
  note I = vector_invI [OF b' s' k']
  show ?thesis
    using r I xs s1 sz by (simp add: Size_def)
qed

lemma PushBack_wrap:
  assumes "size_m v = capacity_m (data_m v)"
    and "\<not> unat (size_m v) < unat (if size_m v = 0 then 1 else size_m v * 2)"
  shows "PushBack T val v = Inl OutOfBlock"
  using assms by (simp add: PushBack_def Let_def load_def construct_at_def)

lemma PushBack_rvalue_grow:
  assumes "vector_inv v" "size_m v = capacity_m (data_m v)"
    and lt: "unat (size_m v) < unat (if size_m v = 0 then 1 else size_m v * 2)"
  shows "\<exists>v'. PushBack_rvalue T val v = Inr v' \<and> vector_inv v' \<and>
           Capacity v' = (if size_m v = 0 then 1 else size_m v * 2) \<and>
           Size v' = Size v + 1 \<and> unat (Size v') = unat (Size v) + 1 \<and>
           elems v' = elems v @ [val]"
proof -
  let ?c = "is_nothrow_move_constructible T \<or> \<not> is_copy_constructible T"
  let ?c' = "if size_m v = 0 then 1 else size_m v * 2 :: size_t"
  let ?nd = "RawMemory_sized ?c' :: 'a RawMemory"
  from assms(1) obtain xs k where xs: "elems v = xs"
    and buf: "buffer_m (data_m v) = map Some xs @ replicate k None"
    and sz: "unat (size_m v) = length xs"
    and cap: "unat (capacity_m (data_m v)) = length xs + k"
    by (rule vector_inv_obtain)
  define m where "m = unat ?c' - length xs - 1"
  have c': "unat ?c' = length xs + Suc m" using lt sz by (simp add: m_def)
  have nb: "buffer_m ?nd = replicate (length xs) None @ None # replicate m None"
    unfolding m_def by (rule grown_block) (use lt sz in simp)
  have step1: "uninitialized_move_n T [Some val] 0 1 (buffer_m ?nd)
                 (GetAddress ?nd + unat (size_m v))
               = Inr ([Some (moved_from T val)],
                      replicate (length xs) None @ Some val # replicate m None)"
    unfolding nb sz GetAddress_def
    using uninitialized_move_n_shape [of "[]" 0 "replicate (length xs) None" "length xs"
                                         "[None]" "[val]" T "[]" "replicate m None"]
    by simp
  define ys where "ys = (if ?c then map (moved_from T) xs else xs)"
  have ys: "length ys = length xs" by (simp add: ys_def)
  have t: "(if ?c
            then uninitialized_move_n T (buffer_m (data_m v)) (GetAddress (data_m v))
                   (unat (size_m v)) (replicate (length xs) None @ Some val # replicate m None)
                   (GetAddress ?nd)
            else bind_err (uninitialized_copy_n (buffer_m (data_m v)) (GetAddress (data_m v))
                             (unat (size_m v))
                             (replicate (length xs) None @ Some val # replicate m None)
                             (GetAddress ?nd))
                   (\<lambda>nb. Inr (buffer_m (data_m v), nb)))
           = Inr (map Some ys @ replicate k None, map Some xs @ Some val # replicate m None)"
    unfolding buf sz GetAddress_def ys_def by (rule transfer_shape) simp
  obtain ob where d: "destroy_n (map Some ys @ replicate k None) 0 (unat (size_m v)) = Inr ob"
    using destroy_n_all [of ys "unat (size_m v)"] sz ys by auto
  let ?v' = "\<lparr>data_m = \<lparr>buffer_m = map Some (xs @ [val]) @ replicate m None, capacity_m = ?c'\<rparr>,
              size_m = size_m v + 1\<rparr>"
  have r: "PushBack_rvalue T val v = Inr ?v'"
    unfolding PushBack_rvalue_def Let_def step1 bind_err_simps split_conv t
    using assms(2) d by (simp add: RawMemory_Swap_def)
  have "size_m v < ?c'" using lt by (simp only: word_less_nat_alt)
  then have s1: "unat (size_m v + 1) = Suc (length xs)"
    using sz by (simp only: unat_Suc_less)
  have b': "buffer_m (data_m ?v') = map Some (xs @ [val]) @ replicate m None"
    by simp
  have s': "unat (size_m ?v') = length (xs @ [val])" using s1 by simp
  have k': "unat (capacity_m (data_m ?v')) = length (xs @ [val]) + m"
    using c' by simp
  note I = vector_invI [OF b' s' k']
  show ?thesis
    using r I xs s1 sz by (simp add: Size_def)
qed

lemma PushBack_rvalue_wrap:
  assumes "size_m v = capacity_m (data_m v)"
    and "\<not> unat (size_m v) < unat (if size_m v = 0 then 1 else size_m v * 2)"
  shows "PushBack_rvalue T val v = Inl OutOfBlock"
  using assms by (simp add: PushBack_rvalue_def Let_def move_out_def load_def construct_at_def)

lemma EmplaceBack_grow:
  assumes "vector_inv v" "size_m v = capacity_m (data_m v)"
    and lt: "unat (size_m v) < unat (if size_m v = 0 then 1 else size_m v * 2)"
  shows "\<exists>v'. EmplaceBack T val v = Inr (v', unat (size_m v)) \<and> vector_inv v' \<and>
           Capacity v' = (if size_m v = 0 then 1 else size_m v * 2) \<and>
           Size v' = Size v + 1 \<and> unat (Size v') = unat (Size v) + 1 \<and>
           elems v' = elems v @ [val]"
proof -
  let ?c = "is_nothrow_move_constructible T \<or> \<not> is_copy_constructible T"
  let ?c' = "if size_m v = 0 then 1 else size_m v * 2 :: size_t"
  let ?nd = "RawMemory_sized ?c' :: 'a RawMemory"
  from assms(1) obtain xs k where xs: "elems v = xs"
    and buf: "buffer_m (data_m v) = map Some xs @ replicate k None"
    and sz: "unat (size_m v) = length xs"
    and cap: "unat (capacity_m (data_m v)) = length xs + k"
    by (rule vector_inv_obtain)
  define m where "m = unat ?c' - length xs - 1"
  have c': "unat ?c' = length xs + Suc m" using lt sz by (simp add: m_def)
  have nb: "buffer_m ?nd = replicate (length xs) None @ None # replicate m None"
    unfolding m_def by (rule grown_block) (use lt sz in simp)
  have lt': "size_m v < ?c'" using lt by (simp only: word_less_nat_alt)
  have p: "RawMemory_plus ?nd (size_m v) = Inr (length xs)"
    using lt' sz by (simp add: RawMemory_plus_def)
  have step1: "construct_at (buffer_m ?nd) (length xs) val
               = Inr (replicate (length xs) None @ Some val # replicate m None)"
    unfolding nb by (rule construct_at_at) simp
  define ys where "ys = (if ?c then map (moved_from T) xs else xs)"
  have ys: "length ys = length xs" by (simp add: ys_def)
  have t: "(if ?c
            then uninitialized_move_n T (buffer_m (data_m v)) (GetAddress (data_m v))
                   (unat (size_m v)) (replicate (length xs) None @ Some val # replicate m None)
                   (GetAddress ?nd)
            else bind_err (uninitialized_copy_n (buffer_m (data_m v)) (GetAddress (data_m v))
                             (unat (size_m v))
                             (replicate (length xs) None @ Some val # replicate m None)
                             (GetAddress ?nd))
                   (\<lambda>nb. Inr (buffer_m (data_m v), nb)))
           = Inr (map Some ys @ replicate k None, map Some xs @ Some val # replicate m None)"
    unfolding buf sz GetAddress_def ys_def by (rule transfer_shape) simp
  obtain ob where d: "destroy_n (map Some ys @ replicate k None) 0 (unat (size_m v)) = Inr ob"
    using destroy_n_all [of ys "unat (size_m v)"] sz ys by auto
  let ?v' = "\<lparr>data_m = \<lparr>buffer_m = map Some (xs @ [val]) @ replicate m None, capacity_m = ?c'\<rparr>,
              size_m = size_m v + 1\<rparr>"
  have r: "EmplaceBack T val v = Inr (?v', length xs)"
    unfolding EmplaceBack_def Let_def p bind_err_simps step1 t
    using assms(2) d by (simp add: RawMemory_Swap_def)
  have s1: "unat (size_m v + 1) = Suc (length xs)"
    using sz lt' by (simp only: unat_Suc_less)
  have b': "buffer_m (data_m ?v') = map Some (xs @ [val]) @ replicate m None"
    by simp
  have s': "unat (size_m ?v') = length (xs @ [val])" using s1 by simp
  have k': "unat (capacity_m (data_m ?v')) = length (xs @ [val]) + m"
    using c' by simp
  note I = vector_invI [OF b' s' k']
  show ?thesis
    using r I xs s1 sz by (simp add: Size_def)
qed

lemma EmplaceBack_wrap:
  assumes "size_m v = capacity_m (data_m v)"
    and "\<not> unat (size_m v) < unat (if size_m v = 0 then 1 else size_m v * 2)"
  shows "\<exists>e. EmplaceBack T val v = Inl e"
  using assms
  by (simp add: EmplaceBack_def Let_def RawMemory_plus_def construct_at_def)

text \<open>Appending while there is room: the new element is constructed in place.\<close>

lemma append_in_place:
  assumes "vector_inv v" "size_m v \<noteq> capacity_m (data_m v)"
  shows "RawMemory_plus (data_m v) (size_m v) = Inr (unat (size_m v))"
    and "\<exists>b. construct_at (buffer_m (data_m v)) (unat (size_m v)) val = Inr b \<and>
             vector_inv ((set_buffer v b)\<lparr>size_m := size_m v + 1\<rparr>) \<and>
             elems ((set_buffer v b)\<lparr>size_m := size_m v + 1\<rparr>) = elems v @ [val] \<and>
             unat (size_m v + 1) = unat (size_m v) + 1"
proof -
  from assms(1) obtain xs k where xs: "elems v = xs"
    and buf: "buffer_m (data_m v) = map Some xs @ replicate k None"
    and sz: "unat (size_m v) = length xs"
    and cap: "unat (capacity_m (data_m v)) = length xs + k"
    by (rule vector_inv_obtain)
  have le: "size_m v \<le> capacity_m (data_m v)" using assms(1) by (simp add: vector_inv_def)
  then show "RawMemory_plus (data_m v) (size_m v) = Inr (unat (size_m v))"
    by (simp add: RawMemory_plus_def)
  from le assms(2) have lt: "size_m v < capacity_m (data_m v)" by simp
  then have "length xs < length xs + k" using sz cap by (simp add: word_less_nat_alt)
  then obtain k' where k: "k = Suc k'" by (cases k) auto
  have s1: "unat (size_m v + 1) = Suc (length xs)"
    using sz lt by (simp only: unat_Suc_less)
  let ?b = "map Some xs @ Some val # replicate k' None"
  have c: "construct_at (buffer_m (data_m v)) (unat (size_m v)) val = Inr ?b"
    unfolding buf sz k using construct_at_at [of "map Some xs" "length xs" None "replicate k' None" val]
    by simp
  let ?v' = "(set_buffer v ?b)\<lparr>size_m := size_m v + 1\<rparr>"
  have b': "buffer_m (data_m ?v') = map Some (xs @ [val]) @ replicate k' None"
    by (simp add: set_buffer_def)
  have s': "unat (size_m ?v') = length (xs @ [val])" using s1 by simp
  have k': "unat (capacity_m (data_m ?v')) = length (xs @ [val]) + k'"
    using cap k by (simp add: set_buffer_def)
  note I = vector_invI [OF b' s' k']
  show "\<exists>b. construct_at (buffer_m (data_m v)) (unat (size_m v)) val = Inr b \<and>
             vector_inv ((set_buffer v b)\<lparr>size_m := size_m v + 1\<rparr>) \<and>
             elems ((set_buffer v b)\<lparr>size_m := size_m v + 1\<rparr>) = elems v @ [val] \<and>
             unat (size_m v + 1) = unat (size_m v) + 1"
    using c I xs s1 sz by simp
qed

lemma PushBack_in_place:
  assumes "vector_inv v" "size_m v \<noteq> capacity_m (data_m v)"
  shows "\<exists>v'. PushBack T val v = Inr v' \<and> vector_inv v' \<and> Capacity v' = Capacity v \<and>
           unat (Size v') = unat (Size v) + 1 \<and> elems v' = elems v @ [val]"
  using append_in_place(1) [OF assms] append_in_place(2) [OF assms, of val] assms(2)
  by (auto simp: PushBack_def Size_def set_buffer_def)

lemma PushBack_rvalue_in_place:
  assumes "vector_inv v" "size_m v \<noteq> capacity_m (data_m v)"
  shows "\<exists>v'. PushBack_rvalue T val v = Inr v' \<and> vector_inv v' \<and> Capacity v' = Capacity v \<and>
           unat (Size v') = unat (Size v) + 1 \<and> elems v' = elems v @ [val]"
  using append_in_place(1) [OF assms] append_in_place(2) [OF assms, of val] assms(2)
  by (auto simp: PushBack_rvalue_def Size_def set_buffer_def)

lemma EmplaceBack_in_place:
  assumes "vector_inv v" "size_m v \<noteq> capacity_m (data_m v)"
  shows "\<exists>v'. EmplaceBack T val v = Inr (v', unat (size_m v)) \<and> vector_inv v' \<and>
           Capacity v' = Capacity v \<and>
           unat (Size v') = unat (Size v) + 1 \<and> elems v' = elems v @ [val]"
  using append_in_place(1) [OF assms] append_in_place(2) [OF assms, of val] assms(2)
  by (auto simp: EmplaceBack_def Size_def set_buffer_def)

lemma unat_word_of_nat_le:
  "i \<le> unat (s :: size_t) \<Longrightarrow> unat (word_of_nat i :: size_t) = i"
  by (rule le_unat_uoi)

lemma Erase_spec:
  assumes "vector_inv v" "i < unat (size_m v)"
  shows "\<exists>v'. Erase T i v = Inr (v', i) \<and> vector_inv v' \<and> Capacity v' = Capacity v \<and>
           unat (Size v') = unat (Size v) - 1 \<and>
           elems v' = take i (elems v) @ drop (Suc i) (elems v)"
proof -
  from assms(1) obtain xs k where xs: "elems v = xs"
    and buf: "buffer_m (data_m v) = map Some xs @ replicate k None"
    and sz: "unat (size_m v) = length xs"
    and cap: "unat (capacity_m (data_m v)) = length xs + k"
    by (rule vector_inv_obtain)
  have i: "i < length xs" using assms(2) sz by simp
  define ps y zs where "ps = take i xs" and "y = xs ! i" and "zs = drop (Suc i) xs"
  have split: "xs = ps @ y # zs" and lp: "length ps = i" and lz: "length zs = length xs - Suc i"
    using i by (simp_all add: ps_def y_def zs_def id_take_nth_drop)
  have sh: "unat (word_of_nat i :: size_t) = i"
    using assms(2) by (intro unat_word_of_nat_le [of i "size_m v"]) simp
  define w where "w = (if zs = [] then y else moved_from T (last zs))"
  have buf': "buffer_m (data_m v) = map Some ps @ Some y # map Some zs @ replicate k None"
    unfolding buf by (simp add: split)
  let ?b = "map Some ps @ map Some zs @ Some w # replicate k None"
  have mv: "std_move T (buffer_m (data_m v)) (Vector_begin v + unat (word_of_nat i :: size_t) + 1)
              (Vector_end v) (Vector_begin v + unat (word_of_nat i :: size_t)) = Inr ?b"
    unfolding std_move_def Vector_begin_def Vector_end_def GetAddress_def sh buf' sz w_def
    using move_n_assign_shape [of "map Some ps" i T y zs "replicate k None"] lp lz i
    by simp
  let ?v1 = "set_buffer v ?b"
  have b1: "buffer_m (data_m ?v1) = map Some (ps @ zs @ [w]) @ replicate k None"
    by (simp add: set_buffer_def)
  have s1: "unat (size_m ?v1) = length (ps @ zs @ [w])"
    using sz lp lz i by (simp add: set_buffer_def)
  have k1: "unat (capacity_m (data_m ?v1)) = length (ps @ zs @ [w]) + k"
    using cap lp lz i by (simp add: set_buffer_def)
  note I1 = vector_invI [OF b1 s1 k1]
  have nz: "Size ?v1 \<noteq> 0"
    using assms(2) by (auto simp: Size_def set_buffer_def)
  from PopBack_spec [OF I1(1)] nz obtain v' where p: "PopBack ?v1 = Inr v'" "vector_inv v'"
    "Capacity v' = Capacity ?v1" "unat (Size v') = unat (Size ?v1) - 1"
    "elems v' = butlast (elems ?v1)"
    by auto
  have r: "Erase T i v = Inr (v', i)"
    using assms(2) mv p(1) sh
    by (simp add: Erase_def Let_def Vector_begin_def Vector_end_def)
  show ?thesis
    using r p I1(2) xs by (simp add: Size_def set_buffer_def butlast_append ps_def zs_def)
qed

lemma Erase_assert:
  "\<not> pos < unat (size_m v) \<Longrightarrow> Erase T pos v = Inl AssertionFailed"
  by (simp add: Erase_def Vector_begin_def Vector_end_def)

lemma load_elem:
  assumes "vector_inv v" "j < unat (size_m v)"
  shows "load (buffer_m (data_m v)) j = Inr (elems v ! j)"
proof -
  from assms(1) obtain xs k where xs: "elems v = xs"
    and buf: "buffer_m (data_m v) = map Some xs @ replicate k None"
    and sz: "unat (size_m v) = length xs"
    by (rule vector_inv_obtain)
  show ?thesis
    using assms(2) sz unfolding buf xs by (simp add: load_def nth_append)
qed

lemma Vector_copy_spec:
  assumes "vector_inv other"
  shows "\<exists>v'. Vector_copy other = Inr v' \<and> vector_inv v' \<and> Capacity v' = Size other \<and>
           Size v' = Size other \<and> elems v' = elems other"
proof -
  from assms obtain ys ko where ys: "elems other = ys"
    and obuf: "buffer_m (data_m other) = map Some ys @ replicate ko None"
    and osz: "unat (size_m other) = length ys"
    by (rule vector_inv_obtain)
  let ?nd = "RawMemory_sized (size_m other) :: 'a RawMemory"
  have nb: "buffer_m ?nd = replicate (length ys) None"
    by (simp add: RawMemory_sized_def Allocate_eq osz)
  have c: "uninitialized_copy_n (buffer_m (data_m other)) (GetAddress (data_m other))
             (unat (size_m other)) (buffer_m ?nd) (GetAddress ?nd) = Inr (map Some ys)"
    unfolding obuf osz nb GetAddress_def
    using uninitialized_copy_n_shape [of "[]" 0 "[]" 0 "replicate (length ys) None" ys
                                         "replicate ko None" "[]"]
    by simp
  let ?v' = "\<lparr>data_m = \<lparr>buffer_m = map Some ys, capacity_m = size_m other\<rparr>,
              size_m = size_m other\<rparr>"
  have r: "Vector_copy other = Inr ?v'"
    unfolding Vector_copy_def Let_def c by (simp add: RawMemory_sized_def)
  have b': "buffer_m (data_m ?v') = map Some ys @ replicate 0 None" by simp
  have s': "unat (size_m ?v') = length ys" using osz by simp
  have k': "unat (capacity_m (data_m ?v')) = length ys + 0" using osz by simp
  note I = vector_invI [OF b' s' k']
  show ?thesis using r I ys by (simp add: Size_def)
qed

lemma copy_assign_from_fits:
  assumes "vector_inv v" "vector_inv other" "size_m other \<le> capacity_m (data_m v)"
  shows "\<exists>v'. copy_assign_from v other = Inr v' \<and> vector_inv v' \<and>
           Capacity v' = Capacity v \<and> Size v' = Size other \<and> elems v' = elems other"
proof -
  from assms(1) obtain xs k where xs: "elems v = xs"
    and buf: "buffer_m (data_m v) = map Some xs @ replicate k None"
    and sz: "unat (size_m v) = length xs"
    and cap: "unat (capacity_m (data_m v)) = length xs + k"
    by (rule vector_inv_obtain)
  from assms(2) obtain ys ko where ys: "elems other = ys"
    and obuf: "buffer_m (data_m other) = map Some ys @ replicate ko None"
    and osz: "unat (size_m other) = length ys"
    by (rule vector_inv_obtain)
  have fit: "length ys \<le> length xs + k"
    using assms(3) osz cap by (simp add: word_le_nat_alt)
  define k' where "k' = length xs + k - length ys"
  have b: "(if size_m v \<le> size_m other then
             bind_err (std_copy (buffer_m (data_m other)) (GetAddress (data_m other))
                         (GetAddress (data_m other) + unat (size_m v))
                         (buffer_m (data_m v)) (GetAddress (data_m v)))
               (\<lambda>b. uninitialized_copy_n (buffer_m (data_m other))
                       (GetAddress (data_m other) + unat (size_m v))
                       (unat (size_m other - size_m v))
                       b (GetAddress (data_m v) + unat (size_m v)))
           else
             bind_err (std_copy (buffer_m (data_m other)) (GetAddress (data_m other))
                         (GetAddress (data_m other) + unat (size_m other))
                         (buffer_m (data_m v)) (GetAddress (data_m v)))
               (\<lambda>b. destroy_n b (GetAddress (data_m v) + unat (size_m other))
                       (unat (size_m v - size_m other))))
          = Inr (map Some ys @ replicate k' None)"
  proof (cases "size_m v \<le> size_m other")
    case True
    then have le: "length xs \<le> length ys" using sz osz by (simp add: word_le_nat_alt)
    define ps zs where "ps = take (length xs) ys" and "zs = drop (length xs) ys"
    have split: "ys = ps @ zs" and lp: "length ps = length xs"
      and lz: "length zs = length ys - length xs"
      using le by (simp_all add: ps_def zs_def)
    have cnt: "unat (size_m other - size_m v) = length zs"
      using True sz osz lz by (simp add: unat_sub)
    have kk: "k = length zs + k'" using fit le lz by (simp add: k'_def)
    have obuf': "buffer_m (data_m other) = map Some ps @ map Some zs @ replicate ko None"
      unfolding obuf by (simp add: split)
    have c1: "std_copy (buffer_m (data_m other)) (GetAddress (data_m other))
                (GetAddress (data_m other) + unat (size_m v))
                (buffer_m (data_m v)) (GetAddress (data_m v))
              = Inr (map Some ps @ replicate (length zs) None @ replicate k' None)"
      unfolding std_copy_def obuf' buf sz GetAddress_def kk
      using copy_n_assign_shape [of "[]" 0 "[]" 0 xs ps "map Some zs @ replicate ko None"
                                    "replicate (length zs) None @ replicate k' None"] lp
      by (simp add: replicate_add)
    have c2: "uninitialized_copy_n (buffer_m (data_m other))
                (GetAddress (data_m other) + unat (size_m v)) (unat (size_m other - size_m v))
                (map Some ps @ replicate (length zs) None @ replicate k' None)
                (GetAddress (data_m v) + unat (size_m v))
              = Inr (map Some ps @ map Some zs @ replicate k' None)"
      unfolding obuf' cnt sz GetAddress_def
      using uninitialized_copy_n_shape [of "map Some ps" "length xs" "map Some ps" "length xs"
                                           "replicate (length zs) None" zs "replicate ko None"
                                           "replicate k' None"] lp
      by simp
    show ?thesis
      using True c2 unfolding c1 bind_err_simps by (simp add: split)
  next
    case False
    then have lt: "length ys < length xs" using sz osz by (simp add: word_le_nat_alt)
    define ps zs where "ps = take (length ys) xs" and "zs = drop (length ys) xs"
    have split: "xs = ps @ zs" and lp: "length ps = length ys"
      and lz: "length zs = length xs - length ys"
      using lt by (simp_all add: ps_def zs_def)
    have cnt: "unat (size_m v - size_m other) = length zs"
      using False sz osz lz by (simp add: unat_sub)
    have kk: "k' = length zs + k" using lt lz by (simp add: k'_def)
    have buf': "buffer_m (data_m v) = map Some ps @ map Some zs @ replicate k None"
      unfolding buf by (simp add: split)
    have c1: "std_copy (buffer_m (data_m other)) (GetAddress (data_m other))
                (GetAddress (data_m other) + unat (size_m other))
                (buffer_m (data_m v)) (GetAddress (data_m v))
              = Inr (map Some ys @ map Some zs @ replicate k None)"
      unfolding std_copy_def obuf buf' osz GetAddress_def
      using copy_n_assign_shape [of "[]" 0 "[]" 0 ps ys "replicate ko None"
                                    "map Some zs @ replicate k None"] lp
      by simp
    have c2: "destroy_n (map Some ys @ map Some zs @ replicate k None)
                (GetAddress (data_m v) + unat (size_m other)) (unat (size_m v - size_m other))
              = Inr (map Some ys @ replicate (length zs) None @ replicate k None)"
      unfolding cnt osz GetAddress_def
      using destroy_n_shape [of "map Some ys" "length ys" zs "replicate k None"] by simp
    show ?thesis
      using False c2 unfolding c1 bind_err_simps by (simp add: kk replicate_add)
  qed
  let ?v' = "(set_buffer v (map Some ys @ replicate k' None))\<lparr>size_m := size_m other\<rparr>"
  have r: "copy_assign_from v other = Inr ?v'"
    unfolding copy_assign_from_def b using assms(3) by (simp add: RawMemory_Capacity_def)
  have b': "buffer_m (data_m ?v') = map Some ys @ replicate k' None"
    by (simp add: set_buffer_def)
  have s': "unat (size_m ?v') = length ys" using osz by simp
  have c': "unat (capacity_m (data_m ?v')) = length ys + k'"
    using cap fit by (simp add: set_buffer_def k'_def)
  note I = vector_invI [OF b' s' c']
  show ?thesis using r I ys by (simp add: Size_def set_buffer_def)
qed

lemma copy_assign_from_grows:
  assumes "vector_inv other" "\<not> size_m other \<le> capacity_m (data_m v)"
  shows "\<exists>v'. copy_assign_from v other = Inr v' \<and> vector_inv v' \<and>
           Capacity v' = Size other \<and> Size v' = Size other \<and> elems v' = elems other"
  using Vector_copy_spec [OF assms(1)] assms(2)
  by (auto simp: copy_assign_from_def RawMemory_Capacity_def Swap_def RawMemory_Swap_def
                 Size_def vector_inv_def elems_def)

lemma transfer_around_shape:
  assumes "length ps = i" "length D1 = i" "length D2 = length zs"
  shows "(if c then
            bind_err (uninitialized_move_n T (map Some ps @ map Some zs @ B) 0 i
                        (D1 @ s # D2 @ E) 0)
              (\<lambda>(ob1, nb1). uninitialized_move_n T ob1 (0 + i) (length zs) nb1 (0 + i + 1))
          else
            bind_err (uninitialized_copy_n (map Some ps @ map Some zs @ B) 0 i
                        (D1 @ s # D2 @ E) 0)
              (\<lambda>nb1. bind_err (uninitialized_copy_n (map Some ps @ map Some zs @ B) (0 + i)
                                 (length zs) nb1 (0 + i + 1))
                       (\<lambda>nb. Inr (map Some ps @ map Some zs @ B, nb))))
         = Inr (map Some (if c then map (moved_from T) (ps @ zs) else ps @ zs) @ B,
                map Some ps @ s # map Some zs @ E)"
proof (cases c)
  case True
  let ?m = "\<lambda>x. Some (moved_from T x)"
  have 1: "uninitialized_move_n T (map Some ps @ map Some zs @ B) 0 i (D1 @ s # D2 @ E) 0
           = Inr (map ?m ps @ map Some zs @ B, map Some ps @ s # D2 @ E)"
    using uninitialized_move_n_shape [of "[]" 0 "[]" 0 D1 ps T "map Some zs @ B" "s # D2 @ E"]
          assms(1,2)
    by simp
  have 2: "uninitialized_move_n T (map ?m ps @ map Some zs @ B) i
             (length zs) (map Some ps @ s # D2 @ E) (Suc i)
           = Inr (map ?m ps @ map ?m zs @ B, map Some ps @ s # map Some zs @ E)"
    using uninitialized_move_n_shape [of "map ?m ps" i "map Some ps @ [s]"
                                         "Suc i" D2 zs T B E] assms
    by simp
  have 3: "map Some (map (moved_from T) (ps @ zs)) = map ?m ps @ map ?m zs"
    by (simp add: comp_def)
  show ?thesis using True 3 by (simp add: 1 2 comp_def)
next
  case False
  have 1: "uninitialized_copy_n (map Some ps @ map Some zs @ B) 0 i (D1 @ s # D2 @ E) 0
           = Inr (map Some ps @ s # D2 @ E)"
    using uninitialized_copy_n_shape [of "[]" 0 "[]" 0 D1 ps "map Some zs @ B" "s # D2 @ E"]
          assms(1,2)
    by simp
  have 2: "uninitialized_copy_n (map Some ps @ map Some zs @ B) i
             (length zs) (map Some ps @ s # D2 @ E) (Suc i)
           = Inr (map Some ps @ s # map Some zs @ E)"
    using uninitialized_copy_n_shape [of "map Some ps" i "map Some ps @ [s]"
                                         "Suc i" D2 zs B E] assms
    by simp
  show ?thesis using False by (simp add: 1 2)
qed

lemma Emplace_grow:
  assumes "vector_inv v" "pos \<le> unat (size_m v)" "size_m v = capacity_m (data_m v)"
    and lt: "unat (size_m v) < unat (if size_m v = 0 then 1 else size_m v * 2)"
  shows "\<exists>v'. Emplace T pos val v = Inr (v', pos) \<and> vector_inv v' \<and>
           Capacity v' = (if size_m v = 0 then 1 else size_m v * 2) \<and>
           unat (Size v') = unat (Size v) + 1 \<and>
           elems v' = take pos (elems v) @ val # drop pos (elems v)"
proof -
  let ?c = "is_nothrow_move_constructible T \<or> \<not> is_copy_constructible T"
  let ?c' = "if size_m v = 0 then 1 else size_m v * 2 :: size_t"
  let ?nd = "RawMemory_sized ?c' :: 'a RawMemory"
  let ?sh = "word_of_nat (pos - Vector_begin v) :: size_t"
  from assms(1) obtain xs k where xs: "elems v = xs"
    and buf: "buffer_m (data_m v) = map Some xs @ replicate k None"
    and sz: "unat (size_m v) = length xs"
    and cap: "unat (capacity_m (data_m v)) = length xs + k"
    by (rule vector_inv_obtain)
  have pos: "pos \<le> length xs" using assms(2) sz by simp
  define ps zs where "ps = take pos xs" and "zs = drop pos xs"
  have split: "xs = ps @ zs" and lp: "length ps = pos" and lz: "length zs = length xs - pos"
    using pos by (simp_all add: ps_def zs_def)
  have sh: "unat ?sh = pos"
    using unat_word_of_nat_le [OF assms(2)] by (simp add: Vector_begin_def)
  have shle: "?sh \<le> size_m v" using sh assms(2) by (simp add: word_le_nat_alt)
  have cnt: "unat (size_m v - ?sh) = length zs"
    using shle sh sz lz by (simp add: unat_sub)
  define m where "m = unat ?c' - length xs - 1"
  have c': "unat ?c' = length xs + Suc m" using lt sz by (simp add: m_def)
  have "replicate (unat ?c') (None :: 'a option)
        = replicate pos None @ None # replicate (length zs) None @ replicate m None"
    unfolding c' using pos lz
    by (metis (no_types, lifting) add_Suc_right le_add_diff_inverse replicate_Suc replicate_add
              replicate_app_Cons_same append.assoc)
  then have nb: "buffer_m ?nd = replicate pos None @ None # replicate (length zs) None @ replicate m None"
    by (simp add: RawMemory_sized_def Allocate_eq)
  have lt': "size_m v < ?c'" using lt by (simp only: word_less_nat_alt)
  have p: "RawMemory_plus ?nd ?sh = Inr pos"
    using shle lt' sh by (simp add: RawMemory_plus_def)
  have step1: "construct_at (buffer_m ?nd) pos val
               = Inr (replicate pos None @ Some val # replicate (length zs) None @ replicate m None)"
    unfolding nb by (rule construct_at_at) simp
  define ys where "ys = (if ?c then map (moved_from T) (ps @ zs) else ps @ zs)"
  have ys: "length ys = length xs" by (simp add: ys_def split)
  have buf': "buffer_m (data_m v) = map Some ps @ map Some zs @ replicate k None"
    unfolding buf by (simp add: split)
  have t: "(if ?c then
              bind_err (uninitialized_move_n T (buffer_m (data_m v)) (GetAddress (data_m v))
                          (unat ?sh)
                          (replicate pos None @ Some val # replicate (length zs) None @ replicate m None)
                          (GetAddress ?nd))
                (\<lambda>(ob1, nb1).
                   uninitialized_move_n T ob1 (GetAddress (data_m v) + unat ?sh)
                     (unat (size_m v - ?sh)) nb1 (GetAddress ?nd + unat ?sh + 1))
            else
              bind_err (uninitialized_copy_n (buffer_m (data_m v)) (GetAddress (data_m v))
                          (unat ?sh)
                          (replicate pos None @ Some val # replicate (length zs) None @ replicate m None)
                          (GetAddress ?nd))
                (\<lambda>nb1.
                   bind_err (uninitialized_copy_n (buffer_m (data_m v))
                               (GetAddress (data_m v) + unat ?sh)
                               (unat (size_m v - ?sh)) nb1 (GetAddress ?nd + unat ?sh + 1))
                     (\<lambda>nb. Inr (buffer_m (data_m v), nb))))
           = Inr (map Some ys @ replicate k None,
                  map Some ps @ Some val # map Some zs @ replicate m None)"
    unfolding buf' cnt sh GetAddress_def ys_def
    by (rule transfer_around_shape) (simp_all add: lp)
  obtain ob where d: "destroy_n (map Some ys @ replicate k None) (Vector_begin v)
                        (unat (size_m v)) = Inr ob"
    using destroy_n_all [of ys "unat (size_m v)"] sz ys by (auto simp: Vector_begin_def)
  let ?v' = "\<lparr>data_m = \<lparr>buffer_m = map Some (ps @ val # zs) @ replicate m None,
                          capacity_m = ?c'\<rparr>,
              size_m = size_m v + 1\<rparr>"
  have r: "Emplace T pos val v = Inr (?v', pos)"
    unfolding Emplace_def Let_def p bind_err_simps step1 t
    using assms(2,3) d by (simp add: RawMemory_Swap_def Vector_begin_def Vector_end_def)
  have s1: "unat (size_m v + 1) = Suc (length xs)"
    using sz lt' by (simp only: unat_Suc_less)
  have b': "buffer_m (data_m ?v') = map Some (ps @ val # zs) @ replicate m None"
    by simp
  have s': "unat (size_m ?v') = length (ps @ val # zs)" using s1 split by simp
  have k': "unat (capacity_m (data_m ?v')) = length (ps @ val # zs) + m"
    using c' split by simp
  note I = vector_invI [OF b' s' k']
  show ?thesis
    using r I xs s1 sz by (simp add: Size_def ps_def zs_def)
qed

lemma length_last_moved [simp]: "length (last_moved T xs) = length xs"
  by (simp add: last_moved_def)

lemma last_moved_snoc [simp]: "last_moved T (us @ [l]) = us @ [moved_from T l]"
  by (simp add: last_moved_def)

lemma Emplace_in_place:
  assumes "vector_inv v" "pos \<le> unat (size_m v)" "size_m v \<noteq> capacity_m (data_m v)"
  shows "\<exists>v'. Emplace T pos val v = Inr (v', pos) \<and> vector_inv v' \<and>
           Capacity v' = Capacity v \<and> unat (Size v') = unat (Size v) + 1 \<and>
           elems v' = take pos (last_moved T (elems v)) @ val # drop pos (last_moved T (elems v))"
proof -
  let ?sh = "word_of_nat (pos - Vector_begin v) :: size_t"
  from assms(1) obtain xs k where xs: "elems v = xs"
    and buf: "buffer_m (data_m v) = map Some xs @ replicate k None"
    and sz: "unat (size_m v) = length xs"
    and cap: "unat (capacity_m (data_m v)) = length xs + k"
    by (rule vector_inv_obtain)
  have le: "size_m v \<le> capacity_m (data_m v)" using assms(1) by (simp add: vector_inv_def)
  with assms(3) have lt: "size_m v < capacity_m (data_m v)" by simp
  then have "length xs < length xs + k" using sz cap by (simp add: word_less_nat_alt)
  then obtain k' where k: "k = Suc k'" by (cases k) auto
  have pos: "pos \<le> length xs" using assms(2) sz by simp
  define xs' where "xs' = last_moved T xs"
  have lx: "length xs' = length xs" by (simp add: xs'_def)
  define ps ws where "ps = take pos xs'" and "ws = drop pos xs'"
  have split: "xs' = ps @ ws" and lp: "length ps = pos" and lw: "length ws = length xs - pos"
    using pos lx by (simp_all add: ps_def ws_def)
  let ?Q = "replicate k' (None :: 'a option)"
  have sh: "unat ?sh = pos"
    using unat_word_of_nat_le [OF assms(2)] by (simp add: Vector_begin_def)
  have sh0: "unat (word_of_nat pos :: size_t) = pos"
    by (rule unat_word_of_nat_le [OF assms(2)])
  have shle: "?sh \<le> capacity_m (data_m v)"
    using sh assms(2) cap sz by (simp add: word_le_nat_alt)
  have s1: "unat (size_m v + 1) = Suc (length xs)"
    using sz lt by (simp only: unat_Suc_less)
  have shift: "(if size_m v \<noteq> 0 then
               bind_err (RawMemory_plus (data_m v) (size_m v))
                 (\<lambda>p.
                    bind_err (move_out T (buffer_m (data_m v))
                                (GetAddress (data_m v) + unat (size_m v) - 1))
                      (\<lambda>(x, b1).
                         bind_err (construct_at b1 p x)
                           (\<lambda>b2.
                              bind_err (std_move_backward T b2 (Vector_begin v + unat ?sh)
                                          (GetAddress (data_m v) + unat (size_m v))
                                          (GetAddress (data_m v) + unat (size_m v) + 1))
                                (\<lambda>b3. destroy_at b3 (Vector_begin v + unat ?sh)))))
             else Inr (buffer_m (data_m v)))
            = Inr (map Some ps @ None # map Some ws @ ?Q)"
  proof (cases "size_m v = 0")
    case True
    then have "xs = []" using sz by simp
    then show ?thesis
      using True buf k by (simp add: ps_def ws_def xs'_def last_moved_def)
  next
    case False
    then have "xs \<noteq> []" using sz by (auto simp: unat_eq_0)
    then obtain us l where ul: "xs = us @ [l]" by (cases xs rule: rev_cases) auto
    have x': "xs' = us @ [moved_from T l]" by (simp add: xs'_def ul)
    have p1: "RawMemory_plus (data_m v) (size_m v) = Inr (length xs)"
      using le sz by (simp add: RawMemory_plus_def)
    have mo: "move_out T (buffer_m (data_m v)) (GetAddress (data_m v) + unat (size_m v) - 1)
              = Inr (l, map Some us @ Some (moved_from T l) # replicate k None)"
      unfolding buf sz GetAddress_def
      using move_out_at [of "map Some us" "length us" T l "replicate k None"]
      by (simp add: ul)
    have "map Some ps @ map Some ws = map Some (ps @ ws)" by simp
    also have "\<dots> = map Some us @ [Some (moved_from T l)]"
      unfolding split [symmetric] x' by simp
    finally have pw: "map Some ps @ map Some ws = map Some us @ [Some (moved_from T l)]" .
    have "construct_at (map Some us @ Some (moved_from T l) # replicate k None) (length xs) l
              = Inr ((map Some us @ [Some (moved_from T l)]) @ Some l # ?Q)"
      using construct_at_at [of "map Some us @ [Some (moved_from T l)]" "length xs" None ?Q l]
      by (simp add: ul k)
    then have c2: "construct_at (map Some us @ Some (moved_from T l) # replicate k None)
                     (length xs) l
                   = Inr (map Some ps @ map Some ws @ Some l # ?Q)"
      unfolding pw [symmetric] by simp
    have mb: "std_move_backward T (map Some ps @ map Some ws @ Some l # ?Q)
                (Vector_begin v + unat ?sh) (GetAddress (data_m v) + unat (size_m v))
                (GetAddress (data_m v) + unat (size_m v) + 1)
              = Inr (map Some ps @ (if ws = [] then [Some l]
                                    else Some (moved_from T (hd ws)) # map Some ws) @ ?Q)"
      unfolding std_move_backward_def Vector_begin_def GetAddress_def sz
      using move_backward_n_shape [of "map Some ps" ws "length xs" T l ?Q] lp lw pos
      by (simp add: sh0)
    have da: "destroy_at (map Some ps @ (if ws = [] then [Some l]
                                         else Some (moved_from T (hd ws)) # map Some ws) @ ?Q)
                (Vector_begin v + unat ?sh)
              = Inr (map Some ps @ None # map Some ws @ ?Q)"
      unfolding Vector_begin_def GetAddress_def
      using destroy_at_at [of "map Some ps" pos l ?Q]
            destroy_at_at [of "map Some ps" pos "moved_from T (hd ws)" "map Some ws @ ?Q"] lp
      by (simp add: sh0)
    show ?thesis
      unfolding p1 bind_err_simps mo split_conv c2 mb da using False by simp
  qed
  have p2: "RawMemory_plus (data_m v) ?sh = Inr pos"
    using shle sh by (simp add: RawMemory_plus_def)
  have c5: "construct_at (map Some ps @ None # map Some ws @ ?Q) pos val
            = Inr (map Some ps @ Some val # map Some ws @ ?Q)"
    by (rule construct_at_at) (simp add: lp)
  let ?v' = "(set_buffer v (map Some ps @ Some val # map Some ws @ ?Q))\<lparr>size_m := size_m v + 1\<rparr>"
  have r: "Emplace T pos val v = Inr (?v', pos)"
    unfolding Emplace_def Let_def shift bind_err_simps p2 c5
    using assms(2,3) by (simp add: Vector_begin_def Vector_end_def)
  have b': "buffer_m (data_m ?v') = map Some (ps @ val # ws) @ ?Q"
    by (simp add: set_buffer_def)
  have s': "unat (size_m ?v') = length (ps @ val # ws)" using s1 lp lw pos by simp
  have k': "unat (capacity_m (data_m ?v')) = length (ps @ val # ws) + k'"
    using cap k lp lw pos by (simp add: set_buffer_def)
  note I = vector_invI [OF b' s' k']
  show ?thesis
    using r I xs s1 sz by (simp add: Size_def set_buffer_def ps_def ws_def xs'_def)
qed

lemma Emplace_assert:
  "\<not> pos \<le> unat (size_m v) \<Longrightarrow> Emplace T pos val v = Inl AssertionFailed"
  by (simp add: Emplace_def Vector_begin_def Vector_end_def)

lemma Insert_order_kept:
  assumes "vector_inv v" "pos \<le> unat (Size v)"
    and "Size v = Capacity v \<longrightarrow> unat (Capacity v) < 2 ^ 63"
    and "Size v \<noteq> Capacity v \<longrightarrow> last_moved T (elems v) = elems v"
  shows "\<exists>v'. Insert T pos val v = Inr (v', pos) \<and> vector_inv v' \<and>
           unat (Size v') = unat (Size v) + 1 \<and>
           elems v' = take pos (elems v) @ val # drop pos (elems v)"
proof (cases "size_m v = capacity_m (data_m v)")
  case True
  then have "unat (size_m v) < 2 ^ 63" using assms(3) by (simp add: Size_def)
  from double_less [OF this] Emplace_grow [OF assms(1) _ True, of pos T val] assms(2)
  show ?thesis by (auto simp: Insert_def Size_def)
next
  case False
  from Emplace_in_place [OF assms(1) _ False, of pos T val] assms(2,4) False
  show ?thesis by (auto simp: Insert_def Size_def)
qed

section \<open>Lemmas on the invariant of the length\<close>

lemma bind_err_Inr: "bind_err m f = Inr y \<longleftrightarrow> (\<exists>x. m = Inr x \<and> f x = Inr y)"
  by (cases m) simp_all

lemma construct_at_Inr:
  "construct_at b p x = Inr b' \<Longrightarrow> p < length b \<and> length b' = length b"
  by (auto simp: construct_at_def split: if_splits)

lemma uninitialized_move_n_Inr:
  "uninitialized_move_n T src f n dst d = Inr (s', d') \<Longrightarrow>
   length d' = length dst \<and> (0 < n \<longrightarrow> d + n \<le> length dst)"
proof (induction n arbitrary: src f dst d)
  case 0
  then show ?case by simp
next
  case (Suc n)
  from Suc.prems obtain x src1 dst1 where
    c: "construct_at dst d x = Inr dst1"
    and r: "uninitialized_move_n T src1 (Suc f) n dst1 (Suc d) = Inr (s', d')"
    by (auto split: sum.splits prod.splits)
  from construct_at_Inr [OF c] Suc.IH [OF r] show ?case by auto
qed

lemma uninitialized_copy_n_Inr:
  "uninitialized_copy_n src f n dst d = Inr d' \<Longrightarrow>
   length d' = length dst \<and> (0 < n \<longrightarrow> d + n \<le> length dst)"
proof (induction n arbitrary: f dst d)
  case 0
  then show ?case by simp
next
  case (Suc n)
  from Suc.prems obtain x dst1 where
    c: "construct_at dst d x = Inr dst1"
    and r: "uninitialized_copy_n src (Suc f) n dst1 (Suc d) = Inr d'"
    by (auto split: sum.splits)
  from construct_at_Inr [OF c] Suc.IH [OF r] show ?case by auto
qed

lemma length_inv_default: "length_inv Vector_default"
  by (simp add: length_inv_def Vector_default_def RawMemory_default_def)

lemma length_inv_sized: "Vector_sized T n = Inr v \<Longrightarrow> length_inv v"
  by (auto simp: Vector_sized_def Let_def bind_err_Inr length_inv_def)

lemma length_inv_copy: "Vector_copy other = Inr v \<Longrightarrow> length_inv v"
  by (auto simp: Vector_copy_def Let_def bind_err_Inr length_inv_def)

lemma length_inv_move:
  "length_inv other \<Longrightarrow> length_inv (fst (Vector_move other)) \<and> length_inv (snd (Vector_move other))"
  by (simp add: Vector_move_def RawMemory_move_def length_inv_def)

lemma length_inv_Swap:
  "length_inv v \<Longrightarrow> length_inv other \<Longrightarrow>
   length_inv (fst (Swap v other)) \<and> length_inv (snd (Swap v other))"
  by (simp add: Swap_def RawMemory_Swap_def length_inv_def)

lemma Reserve_fields:
  "Reserve T n v = Inr v' \<Longrightarrow>
   size_m v' = size_m v \<and>
   capacity_m (data_m v') = (if n \<le> capacity_m (data_m v) then capacity_m (data_m v) else n)"
  by (auto simp: Reserve_def Let_def bind_err_Inr RawMemory_Swap_def RawMemory_Capacity_def
           split: if_splits)

lemma length_inv_Reserve: "Reserve T n v = Inr v' \<Longrightarrow> length_inv v \<Longrightarrow> length_inv v'"
  using Reserve_fields [of T n v v'] by (auto simp: length_inv_def)

lemma length_inv_Resize: "Resize T n v = Inr v' \<Longrightarrow> length_inv v \<Longrightarrow> length_inv v'"
proof -
  assume r: "Resize T n v = Inr v'" and i: "length_inv v"
  consider "n < size_m v" | "\<not> n < size_m v" "n \<le> capacity_m (data_m v)"
    | "\<not> n < size_m v" "capacity_m (data_m v) < n"
    by fastforce
  then show ?thesis
  proof cases
    case 1
    then show ?thesis
      using r i by (auto simp: Resize_def bind_err_Inr length_inv_def set_buffer_def)
  next
    case 2
    then have "\<not> capacity_m (data_m v) < n" by simp
    then show ?thesis
      using r 2 by (auto simp: Resize_def bind_err_Inr length_inv_def set_buffer_def
                               RawMemory_Capacity_def)
  next
    case 3
    let ?c = "max (capacity_m (data_m v) * 2) n"
    from 3 r obtain v1 where v1: "Reserve T ?c v = Inr v1"
      and c: "capacity_m (data_m v') = capacity_m (data_m v1)" and s: "size_m v' = n"
      by (auto simp: Resize_def Let_def bind_err_Inr set_buffer_def RawMemory_Capacity_def)
    from Reserve_fields [OF v1] 3 have "n \<le> capacity_m (data_m v1)"
      by (auto simp: max_def split: if_splits)
    then show ?thesis using c s by (simp add: length_inv_def)
  qed
qed

lemma length_inv_PopBack: "PopBack v = Inr v' \<Longrightarrow> length_inv v \<Longrightarrow> length_inv v'"
proof -
  assume r: "PopBack v = Inr v'" and i: "length_inv v"
  have "size_m v - 1 \<le> size_m v" if "0 < size_m v"
    using that by (simp add: word_le_nat_alt unat_minus_one word_greater_zero_iff)
  then show ?thesis
    using r i by (auto simp: PopBack_def bind_err_Inr length_inv_def set_buffer_def
                       split: if_splits)
qed

lemma grown_length_inv:
  assumes "unat (s :: size_t) < unat (if s = 0 then 1 else s * 2)"
    and "size_m v' = s + 1" "capacity_m (data_m v') = (if s = 0 then 1 else s * 2)"
  shows "length_inv v'"
proof -
  have "s < (if s = 0 then 1 else s * 2)" using assms(1) by (simp only: word_less_nat_alt)
  then have "s + 1 \<le> (if s = 0 then 1 else s * 2)" by (rule inc_le)
  then show ?thesis using assms(2,3) by (simp add: length_inv_def)
qed

lemma in_place_length_inv:
  assumes "length_inv v" "size_m v \<noteq> capacity_m (data_m v)"
    and "size_m v' = size_m v + 1" "capacity_m (data_m v') = capacity_m (data_m v)"
  shows "length_inv v'"
proof -
  have "size_m v < capacity_m (data_m v)" using assms(1,2) by (simp add: length_inv_def)
  then have "size_m v + 1 \<le> capacity_m (data_m v)" by (rule inc_le)
  then show ?thesis using assms(3,4) by (simp add: length_inv_def)
qed

lemma PushBack_fields:
  "PushBack T val v = Inr v' \<Longrightarrow>
   size_m v' = size_m v + 1 \<and>
   capacity_m (data_m v') = (if size_m v = capacity_m (data_m v)
                             then (if size_m v = 0 then 1 else size_m v * 2)
                             else capacity_m (data_m v))"
  by (cases "size_m v = capacity_m (data_m v)")
     (auto simp: PushBack_def Let_def bind_err_Inr RawMemory_Swap_def set_buffer_def
           split: if_splits)

lemma length_inv_PushBack:
  assumes "PushBack T val v = Inr v'" "length_inv v"
  shows "length_inv v'"
proof (cases "size_m v = capacity_m (data_m v)")
  case True
  have "unat (size_m v) < unat (if size_m v = 0 then 1 else size_m v * 2)"
  proof (rule ccontr)
    assume n: "\<not> unat (size_m v) < unat (if size_m v = 0 then 1 else size_m v * 2)"
    from PushBack_wrap [OF True n, of T val] assms(1) show False by auto
  qed
  moreover have "size_m v' = size_m v + 1"
    and "capacity_m (data_m v') = (if size_m v = 0 then 1 else size_m v * 2)"
    using PushBack_fields [OF assms(1)] True by simp_all
  ultimately show ?thesis by (rule grown_length_inv)
next
  case False
  have "size_m v' = size_m v + 1" and "capacity_m (data_m v') = capacity_m (data_m v)"
    using PushBack_fields [OF assms(1)] False by simp_all
  with assms(2) False show ?thesis by (rule in_place_length_inv)
qed

lemma PushBack_rvalue_fields:
  "PushBack_rvalue T val v = Inr v' \<Longrightarrow>
   size_m v' = size_m v + 1 \<and>
   capacity_m (data_m v') = (if size_m v = capacity_m (data_m v)
                             then (if size_m v = 0 then 1 else size_m v * 2)
                             else capacity_m (data_m v))"
  by (cases "size_m v = capacity_m (data_m v)")
     (auto simp: PushBack_rvalue_def Let_def bind_err_Inr RawMemory_Swap_def set_buffer_def
           split: if_splits)

lemma length_inv_PushBack_rvalue:
  assumes "PushBack_rvalue T val v = Inr v'" "length_inv v"
  shows "length_inv v'"
proof (cases "size_m v = capacity_m (data_m v)")
  case True
  have "unat (size_m v) < unat (if size_m v = 0 then 1 else size_m v * 2)"
  proof (rule ccontr)
    assume n: "\<not> unat (size_m v) < unat (if size_m v = 0 then 1 else size_m v * 2)"
    from PushBack_rvalue_wrap [OF True n, of T val] assms(1) show False by auto
  qed
  moreover have "size_m v' = size_m v + 1"
    and "capacity_m (data_m v') = (if size_m v = 0 then 1 else size_m v * 2)"
    using PushBack_rvalue_fields [OF assms(1)] True by simp_all
  ultimately show ?thesis by (rule grown_length_inv)
next
  case False
  have "size_m v' = size_m v + 1" and "capacity_m (data_m v') = capacity_m (data_m v)"
    using PushBack_rvalue_fields [OF assms(1)] False by simp_all
  with assms(2) False show ?thesis by (rule in_place_length_inv)
qed

lemma EmplaceBack_fields:
  "EmplaceBack T val v = Inr (v', r) \<Longrightarrow>
   size_m v' = size_m v + 1 \<and>
   capacity_m (data_m v') = (if size_m v = capacity_m (data_m v)
                             then (if size_m v = 0 then 1 else size_m v * 2)
                             else capacity_m (data_m v))"
  by (cases "size_m v = capacity_m (data_m v)")
     (auto simp: EmplaceBack_def Let_def bind_err_Inr RawMemory_Swap_def set_buffer_def
           split: if_splits)

lemma length_inv_EmplaceBack:
  assumes "EmplaceBack T val v = Inr (v', r)" "length_inv v"
  shows "length_inv v'"
proof (cases "size_m v = capacity_m (data_m v)")
  case True
  have "unat (size_m v) < unat (if size_m v = 0 then 1 else size_m v * 2)"
  proof (rule ccontr)
    assume n: "\<not> unat (size_m v) < unat (if size_m v = 0 then 1 else size_m v * 2)"
    from EmplaceBack_wrap [OF True n, of T val] assms(1) show False by auto
  qed
  moreover have "size_m v' = size_m v + 1"
    and "capacity_m (data_m v') = (if size_m v = 0 then 1 else size_m v * 2)"
    using EmplaceBack_fields [OF assms(1)] True by simp_all
  ultimately show ?thesis by (rule grown_length_inv)
next
  case False
  have "size_m v' = size_m v + 1" and "capacity_m (data_m v') = capacity_m (data_m v)"
    using EmplaceBack_fields [OF assms(1)] False by simp_all
  with assms(2) False show ?thesis by (rule in_place_length_inv)
qed

lemma Emplace_fields:
  "Emplace T pos val v = Inr (v', r) \<Longrightarrow>
   size_m v' = size_m v + 1 \<and>
   capacity_m (data_m v') = (if size_m v = capacity_m (data_m v)
                             then (if size_m v = 0 then 1 else size_m v * 2)
                             else capacity_m (data_m v))"
  by (cases "size_m v = capacity_m (data_m v)")
     (auto simp: Emplace_def Let_def bind_err_Inr RawMemory_Swap_def set_buffer_def
           split: if_splits)

lemma Emplace_grow_bound:
  assumes r: "Emplace T pos val v = Inr (v', res)"
    and full: "size_m v = capacity_m (data_m v)"
  shows "unat (size_m v) < unat (if size_m v = 0 then 1 else size_m v * 2)"
proof -
  let ?c = "is_nothrow_move_constructible T \<or> \<not> is_copy_constructible T"
  let ?c' = "if size_m v = 0 then 1 else size_m v * 2 :: size_t"
  let ?nd = "RawMemory_sized ?c' :: 'a RawMemory"
  let ?sh = "word_of_nat (pos - Vector_begin v) :: size_t"
  let ?TR = "\<lambda>nb0.
     if ?c then
       bind_err (uninitialized_move_n T (buffer_m (data_m v)) (GetAddress (data_m v))
                   (unat ?sh) nb0 (GetAddress ?nd))
         (\<lambda>(ob1, nb1).
            uninitialized_move_n T ob1 (GetAddress (data_m v) + unat ?sh)
              (unat (size_m v - ?sh)) nb1 (GetAddress ?nd + unat ?sh + 1))
     else
       bind_err (uninitialized_copy_n (buffer_m (data_m v)) (GetAddress (data_m v))
                   (unat ?sh) nb0 (GetAddress ?nd))
         (\<lambda>nb1.
            bind_err (uninitialized_copy_n (buffer_m (data_m v))
                        (GetAddress (data_m v) + unat ?sh)
                        (unat (size_m v - ?sh)) nb1 (GetAddress ?nd + unat ?sh + 1))
              (\<lambda>nb. Inr (buffer_m (data_m v), nb)))"
  have pos: "pos \<le> unat (size_m v)"
    using Emplace_assert [of pos v T val] r by auto
  have sh: "unat ?sh = pos"
    using unat_word_of_nat_le [OF pos] by (simp add: Vector_begin_def)
  have shle: "?sh \<le> size_m v" using sh pos by (simp add: word_le_nat_alt)
  have cnt: "unat (size_m v - ?sh) = unat (size_m v) - pos"
    using shle sh by (simp add: unat_sub)
  have "Emplace T pos val v =
        bind_err (RawMemory_plus ?nd ?sh)
          (\<lambda>result.
             bind_err (construct_at (buffer_m ?nd) result val)
               (\<lambda>nb0.
                  bind_err (?TR nb0)
                    (\<lambda>(ob, nb).
                       bind_err (destroy_n ob (Vector_begin v) (unat (size_m v)))
                         (\<lambda>ob'. let (d, old) = RawMemory_Swap ((data_m v)\<lparr>buffer_m := ob'\<rparr>)
                                                  (?nd\<lparr>buffer_m := nb\<rparr>)
                                in Inr (\<lparr>data_m = d, size_m = size_m v + 1\<rparr>, result)))))"
    unfolding Emplace_def Let_def using full pos
    by (simp add: Vector_begin_def Vector_end_def)
  with r obtain result nb0 z where
    a: "RawMemory_plus ?nd ?sh = Inr result"
    and c: "construct_at (buffer_m ?nd) result val = Inr nb0"
    and t: "?TR nb0 = Inr z"
    by (simp only: bind_err_Inr) blast
  have res: "result = pos"
    using a sh by (simp add: RawMemory_plus_def split: if_splits)
  from construct_at_Inr [OF c] have p: "pos < unat ?c'" and l0: "length nb0 = unat ?c'"
    unfolding res by simp_all
  show ?thesis
  proof (cases "pos = unat (size_m v)")
    case True
    then show ?thesis using p by simp
  next
    case False
    then have n: "0 < unat (size_m v - ?sh)" using pos cnt by simp
    have "pos + 1 + unat (size_m v - ?sh) \<le> length nb0"
    proof (cases ?c)
      case True
      with t obtain ob1 nb1 where
        1: "uninitialized_move_n T (buffer_m (data_m v)) (GetAddress (data_m v))
              (unat ?sh) nb0 (GetAddress ?nd) = Inr (ob1, nb1)"
        and 2: "uninitialized_move_n T ob1 (GetAddress (data_m v) + unat ?sh)
              (unat (size_m v - ?sh)) nb1 (GetAddress ?nd + unat ?sh + 1) = Inr z"
        by (simp only: if_True bind_err_Inr split_paired_Ex split_conv) blast
      obtain z1 z2 where z: "z = (z1, z2)" by (cases z)
      from uninitialized_move_n_Inr [OF 1] uninitialized_move_n_Inr [OF 2 [unfolded z]] n
      show ?thesis by (simp add: sh)
    next
      case False
      with t obtain nb1 nb where
        1: "uninitialized_copy_n (buffer_m (data_m v)) (GetAddress (data_m v))
              (unat ?sh) nb0 (GetAddress ?nd) = Inr nb1"
        and 2: "uninitialized_copy_n (buffer_m (data_m v)) (GetAddress (data_m v) + unat ?sh)
              (unat (size_m v - ?sh)) nb1 (GetAddress ?nd + unat ?sh + 1) = Inr nb"
        by (simp only: if_False bind_err_Inr) blast
      from uninitialized_copy_n_Inr [OF 1] uninitialized_copy_n_Inr [OF 2] n
      show ?thesis by (simp add: sh)
    qed
    then show ?thesis using l0 pos cnt by simp
  qed
qed

lemma length_inv_Emplace:
  assumes "Emplace T pos val v = Inr (v', r)" "length_inv v"
  shows "length_inv v'"
proof (cases "size_m v = capacity_m (data_m v)")
  case True
  note Emplace_grow_bound [OF assms(1) True]
  moreover have "size_m v' = size_m v + 1"
    and "capacity_m (data_m v') = (if size_m v = 0 then 1 else size_m v * 2)"
    using Emplace_fields [OF assms(1)] True by simp_all
  ultimately show ?thesis by (rule grown_length_inv)
next
  case False
  have "size_m v' = size_m v + 1" and "capacity_m (data_m v') = capacity_m (data_m v)"
    using Emplace_fields [OF assms(1)] False by simp_all
  with assms(2) False show ?thesis by (rule in_place_length_inv)
qed

lemma length_inv_Insert:
  "Insert T pos val v = Inr (v', r) \<Longrightarrow> length_inv v \<Longrightarrow> length_inv v'"
  unfolding Insert_def by (rule length_inv_Emplace)

lemma length_inv_Erase:
  assumes "Erase T pos v = Inr (v', r)" "length_inv v"
  shows "length_inv v'"
proof -
  from assms(1) obtain b where p: "PopBack (set_buffer v b) = Inr v'"
    by (auto simp: Erase_def Let_def bind_err_Inr split: if_splits)
  have "length_inv (set_buffer v b)"
    using assms(2) by (simp add: length_inv_def set_buffer_def)
  with p show ?thesis by (rule length_inv_PopBack)
qed

lemma length_inv_copy_assign_from:
  assumes "copy_assign_from v other = Inr v'"
  shows "length_inv v'"
proof (cases "size_m other \<le> capacity_m (data_m v)")
  case True
  then show ?thesis
    using assms
    by (auto simp: copy_assign_from_def bind_err_Inr length_inv_def set_buffer_def
                   RawMemory_Capacity_def)
next
  case False
  with assms obtain oc where oc: "Vector_copy other = Inr oc" and v': "v' = fst (Swap v oc)"
    by (auto simp: copy_assign_from_def bind_err_Inr RawMemory_Capacity_def)
  from length_inv_copy [OF oc] show ?thesis
    by (simp add: v' Swap_def RawMemory_Swap_def length_inv_def)
qed

lemma do_call_length_inv:
  assumes "do_call T c s = Inr s'" "\<And>a. length_inv (s a)"
  shows "length_inv (s' a)"
proof (cases c)
  case (Construct_default this)
  then show ?thesis using assms by (auto simp: length_inv_default)
next
  case (Construct_sized this n)
  then show ?thesis using assms by (auto simp: bind_err_Inr dest: length_inv_sized)
next
  case (Construct_copy this other)
  then show ?thesis using assms by (auto simp: bind_err_Inr dest: length_inv_copy)
next
  case (Construct_move this other)
  then show ?thesis
    using assms length_inv_move [of "s other"] by (auto simp: split_def Let_def)
next
  case (Call_Swap this other)
  then show ?thesis
    using assms length_inv_Swap [of "s this" "s other"]
    by (auto simp: store_Swap_def split_def Let_def)
next
  case (Call_Reserve this n)
  then show ?thesis using assms by (auto simp: bind_err_Inr dest: length_inv_Reserve)
next
  case (Call_Resize this n)
  then show ?thesis using assms by (auto simp: bind_err_Inr dest: length_inv_Resize)
next
  case (Call_PushBack this x)
  then show ?thesis using assms by (auto simp: bind_err_Inr dest: length_inv_PushBack)
next
  case (Call_PushBack_rvalue this x)
  then show ?thesis using assms by (auto simp: bind_err_Inr dest: length_inv_PushBack_rvalue)
next
  case (Call_PopBack this)
  then show ?thesis using assms by (auto simp: bind_err_Inr dest: length_inv_PopBack)
next
  case (Call_copy_assign this other)
  then show ?thesis
    using assms
    by (auto simp: copy_assign_def bind_err_Inr split: if_splits dest: length_inv_copy_assign_from)
next
  case (Call_move_assign this other)
  then show ?thesis
    using assms length_inv_Swap [of "s this" "s other"]
    by (auto simp: move_assign_def store_Swap_def split_def Let_def)
next
  case (Call_EmplaceBack this x)
  then show ?thesis using assms by (auto simp: bind_err_Inr dest: length_inv_EmplaceBack)
next
  case (Call_Emplace this pos x)
  then show ?thesis using assms by (auto simp: bind_err_Inr dest: length_inv_Emplace)
next
  case (Call_Erase this pos)
  then show ?thesis using assms by (auto simp: bind_err_Inr dest: length_inv_Erase)
next
  case (Call_Insert this pos x)
  then show ?thesis using assms by (auto simp: bind_err_Inr dest: length_inv_Insert)
qed

lemma run_length_inv:
  "run T cs s = Inr s' \<Longrightarrow> (\<And>a. length_inv (s a)) \<Longrightarrow> length_inv (s' a)"
proof (induction cs arbitrary: s)
  case Nil
  then show ?case by simp
next
  case (Cons c cs)
  from Cons.prems(1) obtain s1 where 1: "do_call T c s = Inr s1" and 2: "run T cs s1 = Inr s'"
    by (auto split: sum.splits)
  have "\<And>a. length_inv (s1 a)"
    using do_call_length_inv [OF 1] Cons.prems(2) by blast
  with 2 show ?case by (rule Cons.IH)
qed

section \<open>The class invariant is kept\<close>

text \<open>The elements of a vector are what \<^verbatim>\<open>operator[]\<close> reads, and every vector of a store
  reached from default-constructed vectors satisfies the class invariant, which the
  theorems below take as their hypothesis.\<close>

lemma Vector_at_elems:
  assumes "vector_inv v" "i < Size v"
  shows "Vector_at v i = Inr (elems v ! unat i)"
proof -
  have lt: "unat i < unat (size_m v)"
    using assms(2) by (simp add: Size_def word_less_nat_alt)
  have "size_m v \<le> capacity_m (data_m v)" using assms(1) by (simp add: vector_inv_def)
  then have "i < capacity_m (data_m v)" using assms(2) by (simp add: Size_def)
  then show ?thesis
    using assms(2) load_elem [OF assms(1) lt]
    by (simp add: Vector_at_def Vector_index_def RawMemory_index_def Size_def)
qed

lemma vector_inv_default: "vector_inv Vector_default"
  by (simp add: vector_inv_def Vector_default_def RawMemory_default_def)

lemma vector_inv_sized:
  assumes "Vector_sized T n = Inr v"
  shows "vector_inv v"
proof -
  let ?v0 = "\<lparr>data_m = RawMemory_sized n, size_m = 0\<rparr> :: 'a Vector"
  have i0: "vector_inv ?v0"
    by (simp add: vector_inv_def RawMemory_sized_def Allocate_eq list_all_iff)
  from value_construct_tail [OF i0, of n T] obtain b where
    b: "uninitialized_value_construct_n T (buffer_m (RawMemory_sized n :: 'a RawMemory))
          (GetAddress (RawMemory_sized n :: 'a RawMemory)) (unat n) = Inr b"
    and i: "vector_inv ((set_buffer ?v0 b)\<lparr>size_m := n\<rparr>)"
    by auto
  have "Vector_sized T n = Inr \<lparr>data_m = (RawMemory_sized n)\<lparr>buffer_m := b\<rparr>, size_m = n\<rparr>"
    unfolding Vector_sized_def Let_def b by simp
  with assms i show ?thesis by (simp add: set_buffer_def)
qed

lemma vector_inv_move:
  "vector_inv other \<Longrightarrow> vector_inv (fst (Vector_move other)) \<and> vector_inv (snd (Vector_move other))"
  by (simp add: Vector_move_def RawMemory_move_def vector_inv_def)

lemma vector_inv_Swap:
  "vector_inv v \<Longrightarrow> vector_inv other \<Longrightarrow>
   vector_inv (fst (Swap v other)) \<and> vector_inv (snd (Swap v other))"
  by (simp add: Swap_def RawMemory_Swap_def vector_inv_def)

lemma vector_inv_Reserve:
  assumes "Reserve T n v = Inr v'" "vector_inv v"
  shows "vector_inv v'"
proof (cases "n \<le> Capacity v")
  case True
  from Reserve_noop [OF True, of T] assms show ?thesis by simp
next
  case False
  then have "Capacity v < n" by simp
  from Reserve_spec [OF assms(2) this, of T] assms(1) show ?thesis by auto
qed

lemma vector_inv_Resize:
  assumes "Resize T n v = Inr v'" "vector_inv v"
  shows "vector_inv v'"
proof (cases "n < size_m v")
  case True
  from Resize_shrink [OF assms(2) True, of T] assms(1) show ?thesis by auto
next
  case False
  then have "size_m v \<le> n" by simp
  from Resize_grow [OF assms(2) this, of T] assms(1) show ?thesis by auto
qed

lemma vector_inv_PushBack:
  assumes "PushBack T val v = Inr v'" "vector_inv v"
  shows "vector_inv v'"
proof (cases "size_m v = capacity_m (data_m v)")
  case True
  have "unat (size_m v) < unat (if size_m v = 0 then 1 else size_m v * 2)"
  proof (rule ccontr)
    assume n: "\<not> unat (size_m v) < unat (if size_m v = 0 then 1 else size_m v * 2)"
    from PushBack_wrap [OF True n, of T val] assms(1) show False by auto
  qed
  from PushBack_grow [OF assms(2) True this, of T val] assms(1) show ?thesis by auto
next
  case False
  from PushBack_in_place [OF assms(2) False, of T val] assms(1) show ?thesis by auto
qed

lemma vector_inv_PushBack_rvalue:
  assumes "PushBack_rvalue T val v = Inr v'" "vector_inv v"
  shows "vector_inv v'"
proof (cases "size_m v = capacity_m (data_m v)")
  case True
  have "unat (size_m v) < unat (if size_m v = 0 then 1 else size_m v * 2)"
  proof (rule ccontr)
    assume n: "\<not> unat (size_m v) < unat (if size_m v = 0 then 1 else size_m v * 2)"
    from PushBack_rvalue_wrap [OF True n, of T val] assms(1) show False by auto
  qed
  from PushBack_rvalue_grow [OF assms(2) True this, of T val] assms(1) show ?thesis by auto
next
  case False
  from PushBack_rvalue_in_place [OF assms(2) False, of T val] assms(1) show ?thesis by auto
qed

lemma vector_inv_EmplaceBack:
  assumes "EmplaceBack T val v = Inr (v', r)" "vector_inv v"
  shows "vector_inv v'"
proof (cases "size_m v = capacity_m (data_m v)")
  case True
  have "unat (size_m v) < unat (if size_m v = 0 then 1 else size_m v * 2)"
  proof (rule ccontr)
    assume n: "\<not> unat (size_m v) < unat (if size_m v = 0 then 1 else size_m v * 2)"
    from EmplaceBack_wrap [OF True n, of T val] assms(1) show False by auto
  qed
  from EmplaceBack_grow [OF assms(2) True this, of T val] assms(1) show ?thesis by auto
next
  case False
  from EmplaceBack_in_place [OF assms(2) False, of T val] assms(1) show ?thesis by auto
qed

lemma vector_inv_PopBack: "PopBack v = Inr v' \<Longrightarrow> vector_inv v \<Longrightarrow> vector_inv v'"
  using PopBack_spec [of v] by auto

lemma vector_inv_Emplace:
  assumes "Emplace T pos val v = Inr (v', r)" "vector_inv v"
  shows "vector_inv v'"
proof -
  have pos: "pos \<le> unat (size_m v)"
    using Emplace_assert [of pos v T val] assms(1) by auto
  show ?thesis
  proof (cases "size_m v = capacity_m (data_m v)")
    case True
    from Emplace_grow [OF assms(2) pos True Emplace_grow_bound [OF assms(1) True], of T val]
      assms(1)
    show ?thesis by auto
  next
    case False
    from Emplace_in_place [OF assms(2) pos False, of T val] assms(1) show ?thesis by auto
  qed
qed

lemma vector_inv_Erase:
  assumes "Erase T pos v = Inr (v', r)" "vector_inv v"
  shows "vector_inv v'"
proof -
  have pos: "pos < unat (size_m v)"
    using Erase_assert [of pos v T] assms(1) by auto
  from Erase_spec [OF assms(2) pos, of T] assms(1) show ?thesis by auto
qed

lemma vector_inv_copy_assign_from:
  assumes "copy_assign_from v other = Inr v'" "vector_inv v" "vector_inv other"
  shows "vector_inv v'"
proof (cases "size_m other \<le> capacity_m (data_m v)")
  case True
  from copy_assign_from_fits [OF assms(2,3) True] assms(1) show ?thesis by auto
next
  case False
  from copy_assign_from_grows [OF assms(3) False] assms(1) show ?thesis by auto
qed

lemma do_call_vector_inv:
  assumes "do_call T c s = Inr s'" "\<And>a. vector_inv (s a)"
  shows "vector_inv (s' a)"
proof (cases c)
  case (Construct_default this)
  then show ?thesis using assms by (auto simp: vector_inv_default)
next
  case (Construct_sized this n)
  then show ?thesis using assms by (auto simp: bind_err_Inr dest: vector_inv_sized)
next
  case (Construct_copy this other)
  then show ?thesis
    using assms Vector_copy_spec [of "s other"] by (auto simp: bind_err_Inr)
next
  case (Construct_move this other)
  then show ?thesis
    using assms vector_inv_move [of "s other"] by (auto simp: split_def Let_def)
next
  case (Call_Swap this other)
  then show ?thesis
    using assms vector_inv_Swap [of "s this" "s other"]
    by (auto simp: store_Swap_def split_def Let_def)
next
  case (Call_Reserve this n)
  then show ?thesis using assms by (auto simp: bind_err_Inr dest: vector_inv_Reserve)
next
  case (Call_Resize this n)
  then show ?thesis using assms by (auto simp: bind_err_Inr dest: vector_inv_Resize)
next
  case (Call_PushBack this x)
  then show ?thesis using assms by (auto simp: bind_err_Inr dest: vector_inv_PushBack)
next
  case (Call_PushBack_rvalue this x)
  then show ?thesis using assms by (auto simp: bind_err_Inr dest: vector_inv_PushBack_rvalue)
next
  case (Call_PopBack this)
  then show ?thesis using assms by (auto simp: bind_err_Inr dest: vector_inv_PopBack)
next
  case (Call_copy_assign this other)
  then show ?thesis
    using assms vector_inv_copy_assign_from [of "s this" "s other"]
    by (auto simp: copy_assign_def bind_err_Inr split: if_splits)
next
  case (Call_move_assign this other)
  then show ?thesis
    using assms vector_inv_Swap [of "s this" "s other"]
    by (auto simp: move_assign_def store_Swap_def split_def Let_def)
next
  case (Call_EmplaceBack this x)
  then show ?thesis using assms by (auto simp: bind_err_Inr dest: vector_inv_EmplaceBack)
next
  case (Call_Emplace this pos x)
  then show ?thesis using assms by (auto simp: bind_err_Inr dest: vector_inv_Emplace)
next
  case (Call_Erase this pos)
  then show ?thesis using assms by (auto simp: bind_err_Inr dest: vector_inv_Erase)
next
  case (Call_Insert this pos x)
  then show ?thesis
    using assms by (auto simp: bind_err_Inr Insert_def dest: vector_inv_Emplace)
qed

lemma run_vector_inv:
  "run T cs s = Inr s' \<Longrightarrow> (\<And>a. vector_inv (s a)) \<Longrightarrow> vector_inv (s' a)"
proof (induction cs arbitrary: s)
  case Nil
  then show ?case by simp
next
  case (Cons c cs)
  from Cons.prems(1) obtain s1 where 1: "do_call T c s = Inr s1" and 2: "run T cs s1 = Inr s'"
    by (auto split: sum.splits)
  have "\<And>a. vector_inv (s1 a)"
    using do_call_vector_inv [OF 1] Cons.prems(2) by blast
  with 2 show ?case by (rule Cons.IH)
qed

lemma reachable_vector_inv:
  "run T cs (\<lambda>a. Vector_default) = Inr s \<Longrightarrow> vector_inv (s a)"
  by (erule run_vector_inv) (rule vector_inv_default)

section \<open>The claims\<close>

text \<open>
  C10. \<^verbatim>\<open>RawMemory::operator+\<close> accepts every offset up to and including the capacity
  (its assertion is \<^verbatim>\<open>offset <= capacity_\<close>) and yields the address that many elements
  after the start of the block, for the capacity itself the address one past the end;
  \<^verbatim>\<open>RawMemory::operator[]\<close> asserts that the index is strictly less than the capacity,
  so that the same offset, the capacity, fails there.
\<close>

theorem RawMemory_plus_accepts_capacity:
  "(offset \<le> capacity_m m \<longrightarrow> RawMemory_plus m offset = Inr (GetAddress m + unat offset)) \<and>
   (capacity_m m < offset \<longrightarrow> RawMemory_plus m offset = Inl AssertionFailed) \<and>
   RawMemory_plus m (capacity_m m) = Inr (GetAddress m + unat (capacity_m m)) \<and>
   (index < capacity_m m \<longrightarrow> RawMemory_index m index = Inr (GetAddress m + unat index)) \<and>
   (capacity_m m \<le> index \<longrightarrow> RawMemory_index m index = Inl AssertionFailed) \<and>
   RawMemory_index m (capacity_m m) = Inl AssertionFailed"
  by (auto simp: RawMemory_plus_def RawMemory_index_def)

theorem RawMemory_plus_accepts_capacity_witness:
  "RawMemory_plus (RawMemory_sized 4 :: int RawMemory) 4 = Inr 4 \<and>
   RawMemory_plus (RawMemory_sized 4 :: int RawMemory) 3 = Inr 3 \<and>
   RawMemory_plus (RawMemory_sized 4 :: int RawMemory) 5 = Inl AssertionFailed \<and>
   RawMemory_index (RawMemory_sized 4 :: int RawMemory) 3 = Inr 3 \<and>
   RawMemory_index (RawMemory_sized 4 :: int RawMemory) 4 = Inl AssertionFailed"
  using RawMemory_plus_accepts_capacity [of 4 "RawMemory_sized 4 :: int RawMemory" 3]
        RawMemory_plus_accepts_capacity [of 3 "RawMemory_sized 4 :: int RawMemory" 4]
        RawMemory_plus_accepts_capacity [of 5 "RawMemory_sized 4 :: int RawMemory" 4]
  by (simp add: RawMemory_sized_def)

text \<open>
  C8. \<^verbatim>\<open>PopBack\<close> never fails. On a vector of length \<open>n \<ge> 1\<close> it destroys the last
  element, the length becomes \<open>n - 1\<close> and the elements at \<open>[0, n - 1)\<close> are as before;
  on an empty vector it changes nothing.
\<close>

theorem PopBack_never_fails:
  "vector_inv v \<Longrightarrow>
   \<exists>v'. PopBack v = Inr v' \<and> vector_inv v' \<and> Capacity v' = Capacity v \<and>
        (Size v = 0 \<longrightarrow> v' = v) \<and>
        (Size v \<noteq> 0 \<longrightarrow> unat (Size v') = unat (Size v) - 1 \<and>
                          elems v' = take (unat (Size v) - 1) (elems v))"
proof -
  assume inv: "vector_inv v"
  from PopBack_spec [OF inv] obtain v' where r: "PopBack v = Inr v'" "vector_inv v'"
    "Capacity v' = Capacity v"
    "if Size v = 0 then v' = v
     else unat (Size v') = unat (Size v) - 1 \<and> elems v' = butlast (elems v)"
    by blast
  have "length (elems v) = unat (Size v)"
    using vector_inv_shape(2) [OF inv] by (simp add: Size_def)
  then show ?thesis
    using r by (auto simp: butlast_conv_take split: if_splits)
qed

theorem PopBack_never_fails_witness:
  "vector_inv (vector_of [1, 2, 3 :: int] 4) \<and>
   (\<exists>v'. PopBack (vector_of [1, 2, 3 :: int] 4) = Inr v' \<and> elems v' = [1, 2]) \<and>
   PopBack (vector_of ([] :: int list) 4) = Inr (vector_of [] 4)"
proof -
  have h: "vector_inv (vector_of [1, 2, 3 :: int] 4)"
    by (rule vector_of_inv) simp_all
  have e: "vector_inv (vector_of ([] :: int list) 4)"
    by (rule vector_of_inv) simp_all
  show ?thesis
    using h PopBack_never_fails [OF h] PopBack_never_fails [OF e]
    by (auto simp: vector_of_def elems_def Size_def)
qed





text \<open>
  C2. An append (\<^verbatim>\<open>PushBack(const T&)\<close>, \<^verbatim>\<open>PushBack(T&&)\<close> or \<^verbatim>\<open>EmplaceBack\<close>) on a
  vector whose length equals its capacity: whenever the call returns, the capacity is
  \<open>max 1 (2 * old capacity)\<close>, the length is one more, and the elements of before keep
  their values and their order at \<open>[0, old length)\<close>, with the new value after them. The
  call returns whenever the doubled capacity is a \<^verbatim>\<open>size_t\<close>.
\<close>

theorem append_at_full_capacity:
  assumes "vector_inv v" "Size v = Capacity v"
  shows "(\<forall>v'. PushBack T val v = Inr v' \<longrightarrow> appended_with_growth v val v') \<and>
         (\<forall>v'. PushBack_rvalue T val v = Inr v' \<longrightarrow> appended_with_growth v val v') \<and>
         (\<forall>v' r. EmplaceBack T val v = Inr (v', r) \<longrightarrow> appended_with_growth v val v') \<and>
         (unat (Capacity v) < 2 ^ 63 \<longrightarrow>
            (\<exists>v'. PushBack T val v = Inr v') \<and>
            (\<exists>v'. PushBack_rvalue T val v = Inr v') \<and>
            (\<exists>v' r. EmplaceBack T val v = Inr (v', r)))"
proof -
  let ?c' = "if size_m v = 0 then 1 else size_m v * 2 :: size_t"
  have full: "size_m v = capacity_m (data_m v)"
    using assms(2) by (simp add: Size_def)
  have len: "length (elems v) = unat (Size v)"
    using vector_inv_shape(2) [OF assms(1)] by (simp add: Size_def)
  show ?thesis
  proof (cases "unat (size_m v) < unat ?c'")
    case True
    have c: "unat ?c' = max 1 (2 * unat (Capacity v))"
      using unat_double [OF True] full by simp
    have post: "appended_with_growth v val v'"
      if "vector_inv v'" "Capacity v' = ?c'" "unat (Size v') = unat (Size v) + 1"
         "elems v' = elems v @ [val]" for v'
      unfolding appended_with_growth_def using that c len by simp
    from PushBack_grow [OF assms(1) full True, of T val]
    have 1: "\<exists>v'. PushBack T val v = Inr v' \<and> appended_with_growth v val v'"
      using post by blast
    from PushBack_rvalue_grow [OF assms(1) full True, of T val]
    have 2: "\<exists>v'. PushBack_rvalue T val v = Inr v' \<and> appended_with_growth v val v'"
      using post by blast
    from EmplaceBack_grow [OF assms(1) full True, of T val]
    have 3: "\<exists>v' r. EmplaceBack T val v = Inr (v', r) \<and> appended_with_growth v val v'"
      using post by blast
    from 1 2 3 show ?thesis by auto
  next
    case False
    then have "\<not> unat (Capacity v) < 2 ^ 63"
      using double_less [of "size_m v"] full by auto
    then show ?thesis
      using PushBack_wrap [OF full False, of T val] PushBack_rvalue_wrap [OF full False, of T val]
            EmplaceBack_wrap [OF full False, of T val]
      by auto
  qed
qed

theorem append_at_full_capacity_witness:
  "(\<exists>v'. PushBack int_type 3 (vector_of [1, 2] 2) = Inr v' \<and>
         unat (Capacity v') = 4 \<and> unat (Size v') = 3 \<and> elems v' = [1, 2, 3]) \<and>
   (\<exists>v'. PushBack_rvalue int_type 3 (vector_of [1, 2] 2) = Inr v' \<and>
         unat (Capacity v') = 4 \<and> unat (Size v') = 3 \<and> elems v' = [1, 2, 3]) \<and>
   (\<exists>v' r. EmplaceBack int_type 3 (vector_of [] 0) = Inr (v', r) \<and>
         unat (Capacity v') = 1 \<and> unat (Size v') = 1 \<and> elems v' = [3])"
proof -
  have h: "vector_inv (vector_of [1, 2 :: int] 2)" "vector_inv (vector_of ([] :: int list) 0)"
    by (rule vector_of_inv; simp)+
  have e: "elems (vector_of [1, 2 :: int] 2) = [1, 2]" "elems (vector_of ([] :: int list) 0) = []"
    by (rule vector_of_inv; simp)+
  have c: "Capacity (vector_of [1, 2 :: int] 2) = 2" "Size (vector_of [1, 2 :: int] 2) = 2"
    "Capacity (vector_of ([] :: int list) 0) = 0" "Size (vector_of ([] :: int list) 0) = 0"
    by (simp_all add: vector_of_def Size_def)
  have f: "Size (vector_of [1, 2 :: int] 2) = Capacity (vector_of [1, 2 :: int] 2)"
    "Size (vector_of ([] :: int list) 0) = Capacity (vector_of ([] :: int list) 0)"
    unfolding c by simp_all
  show ?thesis
    using append_at_full_capacity [OF h(1) f(1), of int_type 3]
          append_at_full_capacity [OF h(2) f(2), of int_type 3]
    unfolding appended_with_growth_def e c by auto
qed

text \<open>
  C6. \<^verbatim>\<open>Erase\<close> at \<^verbatim>\<open>begin() + i\<close> on a vector of elements \<open>e\<^sub>0 \<dots> e\<^sub>n\<^sub>-\<^sub>1\<close> with
  \<open>i < n\<close> returns a vector of length \<open>n - 1\<close> whose elements at \<open>[0, i)\<close> are
  \<open>e\<^sub>0 \<dots> e\<^sub>i\<^sub>-\<^sub>1\<close> and whose elements at \<open>[i, n - 1)\<close> are \<open>e\<^sub>i\<^sub>+\<^sub>1 \<dots> e\<^sub>n\<^sub>-\<^sub>1\<close>. The capacity
  is as before: the block is not replaced.
\<close>

theorem Erase_elements:
  assumes "vector_inv v" "i < unat (Size v)"
  shows "\<exists>v' r. Erase T i v = Inr (v', r) \<and> vector_inv v' \<and>
           unat (Size v') = unat (Size v) - 1 \<and>
           elems v' = take i (elems v) @ drop (Suc i) (elems v) \<and>
           (\<forall>j < i. elems v' ! j = elems v ! j) \<and>
           (\<forall>j. i \<le> j \<and> j < unat (Size v) - 1 \<longrightarrow> elems v' ! j = elems v ! Suc j) \<and>
           Capacity v' = Capacity v"
proof -
  have i: "i < unat (size_m v)" using assms(2) by (simp add: Size_def)
  have len: "length (elems v) = unat (Size v)"
    using vector_inv_shape(2) [OF assms(1)] by (simp add: Size_def)
  from Erase_spec [OF assms(1) i, of T] obtain v' where r: "Erase T i v = Inr (v', i)"
    "vector_inv v'" "Capacity v' = Capacity v" "unat (Size v') = unat (Size v) - 1"
    "elems v' = take i (elems v) @ drop (Suc i) (elems v)"
    by blast
  have a: "elems v' ! j = elems v ! j" if "j < i" for j
    using that assms(2) len by (simp add: r(5) nth_append)
  have b: "elems v' ! j = elems v ! Suc j" if "i \<le> j" "j < unat (Size v) - 1" for j
    using that assms(2) len by (simp add: r(5) nth_append)
  show ?thesis
    using r a b by blast
qed

theorem Erase_elements_witness:
  "\<exists>v' r. Erase string_type 0 (vector_of [''a'', ''b'', ''c''] 4) = Inr (v', r) \<and>
          elems v' = [''b'', ''c''] \<and> unat (Size v') = 2 \<and> unat (Capacity v') = 4"
proof -
  have h: "vector_inv (vector_of [''a'', ''b'', ''c''] 4)"
    by (rule vector_of_inv) simp_all
  have e: "elems (vector_of [''a'', ''b'', ''c''] 4) = [''a'', ''b'', ''c'']"
    by (rule vector_of_inv) simp_all
  have c: "Capacity (vector_of [''a'', ''b'', ''c''] 4) = 4"
    "Size (vector_of [''a'', ''b'', ''c''] 4) = 3"
    by (simp_all add: vector_of_def Size_def)
  have i: "0 < unat (Size (vector_of [''a'', ''b'', ''c''] 4))"
    unfolding c by simp
  show ?thesis
    using Erase_elements [OF h i, of string_type]
    unfolding e c by auto
qed

text \<open>
  C9. \<^verbatim>\<open>Erase\<close> at \<^verbatim>\<open>begin() + i\<close> returns \<^verbatim>\<open>begin() + i\<close> of the vector it leaves:
  the position of the element that followed the erased one, or \<^verbatim>\<open>end()\<close> when the last
  element was erased.
\<close>

theorem Erase_returns_next:
  assumes "vector_inv v" "i < unat (Size v)"
  shows "\<exists>v' r. Erase T i v = Inr (v', r) \<and> r = Vector_begin v' + i \<and>
           (Suc i < unat (Size v) \<longrightarrow>
              r < Vector_end v' \<and> load (buffer_m (data_m v')) r = Inr (elems v ! Suc i)) \<and>
           (Suc i = unat (Size v) \<longrightarrow> r = Vector_end v')"
proof -
  have i: "i < unat (size_m v)" using assms(2) by (simp add: Size_def)
  have len: "length (elems v) = unat (Size v)"
    using vector_inv_shape(2) [OF assms(1)] by (simp add: Size_def)
  from Erase_spec [OF assms(1) i, of T] obtain v' where r: "Erase T i v = Inr (v', i)"
    "vector_inv v'" "unat (Size v') = unat (Size v) - 1"
    "elems v' = take i (elems v) @ drop (Suc i) (elems v)"
    by blast
  have s': "unat (size_m v') = unat (Size v) - 1" using r(3) by (simp add: Size_def)
  have "load (buffer_m (data_m v')) i = Inr (elems v ! Suc i)" if "Suc i < unat (Size v)"
  proof -
    have "i < unat (size_m v')" using that s' by simp
    from load_elem [OF r(2) this] show ?thesis
      using that len by (simp add: r(4) nth_append)
  qed
  then show ?thesis
    using r(1) s' by (auto simp: Vector_begin_def Vector_end_def)
qed

theorem Erase_returns_next_witness:
  "(\<exists>v' r. Erase int_type 1 (vector_of [10, 20, 30] 4) = Inr (v', r) \<and> r = 1 \<and>
           load (buffer_m (data_m v')) r = Inr 30) \<and>
   (\<exists>v' r. Erase int_type 2 (vector_of [10, 20, 30] 4) = Inr (v', r) \<and> r = Vector_end v')"
proof -
  have h: "vector_inv (vector_of [10, 20, 30 :: int] 4)"
    by (rule vector_of_inv) simp_all
  have e: "elems (vector_of [10, 20, 30 :: int] 4) = [10, 20, 30]"
    by (rule vector_of_inv) simp_all
  have c: "Size (vector_of [10, 20, 30 :: int] 4) = 3"
    by (simp add: vector_of_def Size_def)
  have i: "1 < unat (Size (vector_of [10, 20, 30 :: int] 4))"
    "2 < unat (Size (vector_of [10, 20, 30 :: int] 4))"
    unfolding c by simp_all
  show ?thesis
    using Erase_returns_next [OF h i(1), of int_type] Erase_returns_next [OF h i(2), of int_type]
    unfolding e c by (auto simp: Vector_begin_def)
qed

text \<open>
  C4. Copy assignment \<^verbatim>\<open>a = b\<close> of two distinct vectors with the length of \<open>b\<close> at most
  the capacity of \<open>a\<close>: afterwards \<open>a\<close> has the length of \<open>b\<close> and the elements of \<open>b\<close> in
  order, the capacity of \<open>a\<close> is as before, and \<open>b\<close> (as every other object) is as before.
  Self-assignment \<^verbatim>\<open>a = a\<close> changes nothing.
\<close>

theorem copy_assign_within_capacity:
  "(this \<noteq> other \<and> vector_inv (s this) \<and> vector_inv (s other) \<and>
    Size (s other) \<le> Capacity (s this) \<longrightarrow>
      (\<exists>s'. copy_assign s this other = Inr s' \<and>
            Size (s' this) = Size (s other) \<and>
            elems (s' this) = elems (s other) \<and>
            Capacity (s' this) = Capacity (s this) \<and>
            s' other = s other \<and>
            (\<forall>a. a \<noteq> this \<longrightarrow> s' a = s a) \<and>
            vector_inv (s' this))) \<and>
   copy_assign s this this = Inr s"
proof -
  have "\<exists>s'. copy_assign s this other = Inr s' \<and>
            Size (s' this) = Size (s other) \<and>
            elems (s' this) = elems (s other) \<and>
            Capacity (s' this) = Capacity (s this) \<and>
            s' other = s other \<and>
            (\<forall>a. a \<noteq> this \<longrightarrow> s' a = s a) \<and>
            vector_inv (s' this)"
    if d: "this \<noteq> other" and i: "vector_inv (s this)" "vector_inv (s other)"
      and f: "Size (s other) \<le> Capacity (s this)"
  proof -
    have fit: "size_m (s other) \<le> capacity_m (data_m (s this))"
      using f by (simp add: Size_def)
    from copy_assign_from_fits [OF i fit] obtain v'
      where r: "copy_assign_from (s this) (s other) = Inr v'" "vector_inv v'"
        "Capacity v' = Capacity (s this)" "Size v' = Size (s other)"
        "elems v' = elems (s other)"
      by blast
    have "copy_assign s this other = Inr (s(this := v'))"
      using d r(1) by (simp add: copy_assign_def)
    then show ?thesis using d r by simp
  qed
  moreover have "copy_assign s this this = Inr s"
    by (simp add: copy_assign_def)
  ultimately show ?thesis by blast
qed

theorem copy_assign_within_capacity_witness:
  "(\<exists>s'. copy_assign ((\<lambda>a. Vector_default)(0 := vector_of [1, 2, 3, 4, 5] 5,
                                              1 := vector_of [7, 8] 2)) 0 1 = Inr s' \<and>
         elems (s' 0) = [7 :: int, 8] \<and> Size (s' 0) = 2 \<and> Capacity (s' 0) = 5 \<and>
         s' 1 = vector_of [7, 8] 2) \<and>
   copy_assign ((\<lambda>a. Vector_default)(0 := vector_of [1 :: int] 1)) 0 0
     = Inr ((\<lambda>a. Vector_default)(0 := vector_of [1] 1))"
proof -
  let ?s = "(\<lambda>a. Vector_default)(0 := vector_of [1, 2, 3, 4, 5 :: int] 5,
                                   1 := vector_of [7, 8] 2) :: int store"
  have h: "vector_inv (vector_of [1, 2, 3, 4, 5 :: int] 5)" "vector_inv (vector_of [7, 8 :: int] 2)"
    by (rule vector_of_inv; simp)+
  have e: "elems (vector_of [7, 8 :: int] 2) = [7, 8]"
    by (rule vector_of_inv) simp_all
  have c: "Capacity (vector_of [1, 2, 3, 4, 5 :: int] 5) = 5" "Size (vector_of [7, 8 :: int] 2) = 2"
    by (simp_all add: vector_of_def Size_def)
  have s: "?s 0 = vector_of [1, 2, 3, 4, 5] 5" "?s 1 = vector_of [7, 8] 2"
    by simp_all
  have p: "(0 :: nat) \<noteq> 1 \<and> vector_inv (?s 0) \<and> vector_inv (?s 1) \<and>
           Size (?s 1) \<le> Capacity (?s 0)"
    unfolding s c using h by simp
  show ?thesis
    using copy_assign_within_capacity [of 0 1 ?s] p
          copy_assign_within_capacity [of 0 0 "(\<lambda>a. Vector_default)(0 := vector_of [1 :: int] 1)"]
    unfolding s e c by blast
qed

text \<open>
  C1. \<^verbatim>\<open>Insert\<close>/\<^verbatim>\<open>Emplace\<close> of a value \<open>v\<close> at \<^verbatim>\<open>begin() + i\<close> into a vector of elements
  \<open>e\<^sub>0 \<dots> e\<^sub>n\<^sub>-\<^sub>1\<close> is to give \<open>e\<^sub>0 \<dots> e\<^sub>i\<^sub>-\<^sub>1, v, e\<^sub>i \<dots> e\<^sub>n\<^sub>-\<^sub>1\<close>, with growth and without.
  Without growth the code moves the last element into the new slot and then lets
  \<^verbatim>\<open>std::move_backward\<close> run over the range that still contains the moved-from last
  element, which is assigned over the new slot: for an element type whose move empties its
  source the last element is lost. Here a vector of strings \<open>a, b\<close> with capacity 4, and
  \<open>x\<close> inserted at position 1: the result is \<open>a, x\<close> and the empty string, not \<open>a, x, b\<close>.
  (With growth, and for element types whose move is a copy, the order is kept: lemma
  \<open>Insert_order_kept\<close>.)
\<close>

theorem Insert_in_place_loses_last_element:
  "Insert string_type 1 ''x''
     \<lparr>data_m = \<lparr>buffer_m = [Some ''a'', Some ''b'', None, None], capacity_m = 4\<rparr>, size_m = 2\<rparr>
   = Inr (\<lparr>data_m = \<lparr>buffer_m = [Some ''a'', Some ''x'', Some [], None], capacity_m = 4\<rparr>,
           size_m = 3\<rparr>, 1) \<and>
   Emplace string_type 1 ''x''
     \<lparr>data_m = \<lparr>buffer_m = [Some ''a'', Some ''b'', None, None], capacity_m = 4\<rparr>, size_m = 2\<rparr>
   = Inr (\<lparr>data_m = \<lparr>buffer_m = [Some ''a'', Some ''x'', Some [], None], capacity_m = 4\<rparr>,
           size_m = 3\<rparr>, 1)"
  by code_simp

text \<open>
  C3. The invariant \<open>0 \<le> length \<le> capacity\<close> holds for every vector of every store
  reached from default-constructed vectors by any sequence of constructor calls and calls
  of the public operations that return; and every single call that returns maps a store
  whose vectors satisfy the invariant to a store whose vectors satisfy it. (The class
  invariant is kept in the same way: lemma \<open>reachable_vector_inv\<close>.)
\<close>

theorem length_invariant:
  "(run T cs (\<lambda>a. Vector_default) = Inr s \<longrightarrow> (\<forall>a. Size (s a) \<le> Capacity (s a))) \<and>
   ((\<forall>a. Size (s0 a) \<le> Capacity (s0 a)) \<and> do_call T c s0 = Inr s1 \<longrightarrow>
      (\<forall>a. Size (s1 a) \<le> Capacity (s1 a)))"
proof -
  have inv: "length_inv v \<longleftrightarrow> Size v \<le> Capacity v" for v :: "'a Vector"
    by (simp add: length_inv_def Size_def)
  have "length_inv (s a)" if "run T cs (\<lambda>a. Vector_default) = Inr s" for a
    using that by (rule run_length_inv) (rule length_inv_default)
  moreover have "length_inv (s1 a)"
    if "\<forall>a. length_inv (s0 a)" "do_call T c s0 = Inr s1" for a
    using that(2) by (rule do_call_length_inv) (use that(1) in blast)
  ultimately show ?thesis unfolding inv by blast
qed

theorem length_invariant_witness:
  "(\<exists>s. run int_type [Call_PushBack 0 1, Call_PushBack 0 2, Call_PushBack 0 3,
                        Call_Insert 0 1 99, Call_Erase 0 0, Call_PopBack 0]
            (\<lambda>a. Vector_default) = Inr s \<and>
         elems (s 0) = [99, 2] \<and> Size (s 0) = 2 \<and> Capacity (s 0) = 4 \<and>
         Size (s 0) \<le> Capacity (s 0)) \<and>
   (\<exists>s1. do_call int_type (Call_Resize 7 3) (\<lambda>a. Vector_default) = Inr s1 \<and>
          Size (s1 7) = 3 \<and> Size (s1 7) \<le> Capacity (s1 7))"
proof -
  let ?cs = "[Call_PushBack 0 1, Call_PushBack 0 2, Call_PushBack 0 3,
              Call_Insert 0 1 99, Call_Erase 0 0, Call_PopBack 0] :: int call list"
  have "case run int_type ?cs (\<lambda>a. Vector_default) of Inl e \<Rightarrow> False
        | Inr s \<Rightarrow> elems (s 0) = [99, 2] \<and> Size (s 0) = 2 \<and> Capacity (s 0) = 4"
    by code_simp
  then obtain s where s: "run int_type ?cs (\<lambda>a. Vector_default) = Inr s"
    "elems (s 0) = [99, 2]" "Size (s 0) = 2" "Capacity (s 0) = 4"
    by (auto split: sum.splits)
  have "case do_call int_type (Call_Resize 7 3) (\<lambda>a. Vector_default) of Inl e \<Rightarrow> False
        | Inr s1 \<Rightarrow> Size (s1 7) = 3"
    by code_simp
  then obtain s1 where s1: "do_call int_type (Call_Resize 7 3) (\<lambda>a. Vector_default) = Inr s1"
    "Size (s1 7) = 3"
    by (auto split: sum.splits)
  have d: "\<forall>a. Size ((\<lambda>a. Vector_default :: int Vector) a) \<le> Capacity ((\<lambda>a. Vector_default :: int Vector) a)"
    by (simp add: Size_def Vector_default_def RawMemory_default_def)
  from length_invariant [of int_type ?cs s "\<lambda>a. Vector_default" "Call_Resize 7 3" s1] s s1 d
  show ?thesis by blast
qed

end
